theory Spec2Isabelle
  imports Complex_Main
begin

section \<open>Digital filters of GROOPS: padding, trimming, ARMA filtering, filter chains\<close>

text \<open>
  A shallow embedding of \<^verbatim>\<open>source/classes/digitalFilter/digitalFilter.cpp\<close>.

  Conventions of the embedding:
  \<^item> \<^verbatim>\<open>UInt\<close> is an unsigned size of 64 bits. Row counts, indices and lengths are
    natural numbers. A difference of two \<^verbatim>\<open>UInt\<close> wraps around below zero, also for
    small operands; \<open>usub\<close> writes that out. A sum wraps around only at \<open>2 ^ 64\<close>.
    The sums of \<^verbatim>\<open>pad\<close> and \<^verbatim>\<open>trim\<close> are taken in \<open>nat\<close>: every one of them is at most
    the padded row count \<open>2 \<cdot> length + rows + timeShift\<close>, so the definitions are the
    source wherever that count is below \<open>2 ^ 64\<close>. A statement about \<^verbatim>\<open>pad\<close> or
    \<^verbatim>\<open>trim\<close> at an arbitrary \<open>length\<close> and \<open>timeShift\<close> carries this bound as a
    hypothesis. In \<^verbatim>\<open>filter\<close> the bound is no hypothesis: the first check leaves
    \<open>warmup\<close> and \<open>bnStartIndex\<close> at most the rows of the input, and the padded row
    count at most four times that. The size \<open>(length + 2) / 2\<close> of the chain's response
    is written with its wrap-around. Products are small multiples of the length of a
    coefficient vector held in memory.
  \<^item> \<^verbatim>\<open>Double\<close> is \<open>real\<close> and \<^verbatim>\<open>std::complex<Double>\<close> is \<open>complex\<close>:
    arithmetic is exact, there is no rounding, no NaN and no infinity. Padding and
    trimming only move values, so they are modelled for any element type with a zero.
  \<^item> Every \<^verbatim>\<open>throw\<close> is a value \<open>Inl e\<close> of the result type \<open>error + 'a\<close>.
    The source throws \<^verbatim>\<open>Exception\<close> with a message; the constructors of
    \<open>error\<close> name the messages.
\<close>

subsection \<open>Errors, sizes, loops\<close>

datatype error =
    ZeroLengthInput          \<comment> \<open>"Trying to pad a zero length array"\<close>
  | InvalidPadding           \<comment> \<open>"Time series is too short ... to apply periodic/symmetric padding"\<close>
  | InsufficientInputLength  \<comment> \<open>"Time series is too short ... to apply a filter with a warmup length of"\<close>
  | UnknownPadType           \<comment> \<open>"Unknown pad type."\<close>
  | ResponseLengthTooShort   \<comment> \<open>"length must be at least ... for this filter"\<close>
  | SliceOutOfRange          \<comment> \<open>a row, column or block range that leaves the matrix\<close>
  | DimensionMismatch        \<comment> \<open>operands of copy, matMult, triangularSolve of different shape\<close>
  | IndexOutOfRange          \<comment> \<open>an element index that leaves the vector\<close>

text \<open>\<^verbatim>\<open>a - b\<close> on \<^verbatim>\<open>UInt\<close>: below zero it wraps around.\<close>

definition usub :: "nat \<Rightarrow> nat \<Rightarrow> nat" where
  "usub a b = (if b \<le> a then a - b else a + 2 ^ 64 - b)"

text \<open>
  A counted loop \<^verbatim>\<open>for(UInt k=...; ...; ...) body\<close> over the index values \<open>ks\<close>,
  threading the state the body updates and stopping at the first exception.
\<close>

fun foldE :: "(nat \<Rightarrow> 's \<Rightarrow> error + 's) \<Rightarrow> nat list \<Rightarrow> 's \<Rightarrow> error + 's" where
  "foldE body [] s = Inr s"
| "foldE body (k # ks) s =
     (case body k s of Inl e \<Rightarrow> Inl e | Inr s' \<Rightarrow> foldE body ks s')"

text \<open>Sequencing: the statement after a call runs only if the call did not throw.\<close>

definition bindE :: "error + 'a \<Rightarrow> ('a \<Rightarrow> error + 'b) \<Rightarrow> error + 'b" where
  "bindE r k = (case r of Inl e \<Rightarrow> Inl e | Inr v \<Rightarrow> k v)"

subsection \<open>Matrices\<close>

text \<open>
  Modelled from the spec: the classes \<^verbatim>\<open>Matrix\<close> and \<^verbatim>\<open>Vector\<close> and their
  operations (construction, row, column and block slices, \<^verbatim>\<open>copy\<close>, \<^verbatim>\<open>swap\<close>)
  belong to the matrix library, which is not in the sources at hand. The spec has a
  sequence as a dense two-dimensional array, rows ordered by time, columns the channels,
  with row and column slicing and element access. A \<^verbatim>\<open>Matrix\<close> is its rows in order,
  each a list of \<open>columns\<close> entries; the column count is a field of its own, since a
  matrix without rows still has one. Every slice is taken as the filter code writes it;
  a range that leaves the matrix is an exception, and so is a copy between operands of
  different shape.
\<close>

record 'a Matrix =
  columns :: nat
  rowData :: "'a list list"

definition rows :: "'a Matrix \<Rightarrow> nat" where
  "rows m = length (rowData m)"

definition wellFormed :: "'a Matrix \<Rightarrow> bool" where
  "wellFormed m = list_all (\<lambda>r. length r = columns m) (rowData m)"

text \<open>
  Modelled from the spec: \<^verbatim>\<open>Matrix(r, c)\<close>, a new matrix. It is filled with zeros:
  the spec has the rows of Zero padding, which \<^verbatim>\<open>pad\<close> never writes, "left at zero".
\<close>

definition zeroMatrix :: "nat \<Rightarrow> nat \<Rightarrow> 'a::zero Matrix" where
  "zeroMatrix r c = \<lparr>columns = c, rowData = replicate r (replicate c 0)\<rparr>"

text \<open>
  Modelled from the spec: \<^verbatim>\<open>Matrix(m.row(start, len))\<close>, a copy of \<open>len\<close> rows from
  row \<open>start\<close> on.
\<close>

definition rowSlice :: "'a Matrix \<Rightarrow> nat \<Rightarrow> nat \<Rightarrow> error + 'a Matrix" where
  "rowSlice m start len =
     (if start + len \<le> rows m
      then Inr \<lparr>columns = columns m, rowData = take len (drop start (rowData m))\<rparr>
      else Inl SliceOutOfRange)"

text \<open>
  Modelled from the spec: \<^verbatim>\<open>copy(src, dst.row(start, src.rows()))\<close>, which overwrites a
  row range of \<open>dst\<close>.
\<close>

definition copyRows :: "'a Matrix \<Rightarrow> 'a Matrix \<Rightarrow> nat \<Rightarrow> error + 'a Matrix" where
  "copyRows src dst start =
     (if start + rows src \<le> rows dst
      then (if columns src = columns dst
            then Inr (dst\<lparr>rowData := take start (rowData dst) @ rowData src
                                      @ drop (start + rows src) (rowData dst)\<rparr>)
            else Inl DimensionMismatch)
      else Inl SliceOutOfRange)"

text \<open>
  Modelled from the spec: \<^verbatim>\<open>copy(src.row(i), dst.row(j))\<close>, which overwrites one row
  of \<open>dst\<close>.
\<close>

definition copyRow :: "'a Matrix \<Rightarrow> nat \<Rightarrow> 'a Matrix \<Rightarrow> nat \<Rightarrow> error + 'a Matrix" where
  "copyRow src i dst j =
     (if i < rows src \<and> j < rows dst
      then (if columns src = columns dst
            then Inr (dst\<lparr>rowData := (rowData dst)[j := rowData src ! i]\<rparr>)
            else Inl DimensionMismatch)
      else Inl SliceOutOfRange)"

subsection \<open>DigitalFilterBase: pad and trim\<close>

datatype PadType = NONE | ZERO | CONSTANT | PERIODIC | SYMMETRIC

text \<open>
  \<^verbatim>\<open>DigitalFilterBase::pad\<close>. The three loops run \<open>k\<close> over \<open>0 ..< len\<close> and copy
  two rows each. The \<^verbatim>\<open>default\<close> branch of the \<^verbatim>\<open>switch\<close> is the last case
  below: it is only reached by a value outside the enumeration. The sums are taken in
  \<open>nat\<close>; each is at most \<open>2 \<cdot> len + rows input + timeShift\<close>, so none of them
  wraps around in the source when that count is below \<open>2 ^ 64\<close>.
\<close>

definition pad :: "'a::zero Matrix \<Rightarrow> nat \<Rightarrow> nat \<Rightarrow> PadType \<Rightarrow> error + 'a Matrix" where
  "pad input len timeShift ptype =
     (if ptype = NONE then
        (if timeShift > 0
         then copyRows input (zeroMatrix (rows input + timeShift) (columns input)) 0
         else Inr input)
      else if rows input < 1 then Inl ZeroLengthInput
      else
        (case copyRows input
                (zeroMatrix (2 * len + rows input + timeShift) (columns input)) len of
           Inl e \<Rightarrow> Inl e
         | Inr padded \<Rightarrow>
            (case ptype of
               ZERO \<Rightarrow> Inr padded
             | CONSTANT \<Rightarrow>
                 foldE (\<lambda>k p.
                    case copyRow input 0 p k of
                      Inl e \<Rightarrow> Inl e
                    | Inr p' \<Rightarrow> copyRow input (usub (rows input) 1) p' (rows input + len + k))
                   [0..<len] padded
             | PERIODIC \<Rightarrow>
                 if rows input < len then Inl InvalidPadding
                 else foldE (\<lambda>k p.
                    case copyRow input (usub (rows input) len + k) p k of
                      Inl e \<Rightarrow> Inl e
                    | Inr p' \<Rightarrow> copyRow input k p' (rows input + len + k))
                   [0..<len] padded
             | SYMMETRIC \<Rightarrow>
                 if rows input < len + 1 then Inl InvalidPadding
                 else foldE (\<lambda>k p.
                    case copyRow input (k + 1) p (usub (usub len 1) k) of
                      Inl e \<Rightarrow> Inl e
                    | Inr p' \<Rightarrow>
                        copyRow input (usub (usub (rows input) 2) k) p' (rows input + len + k))
                   [0..<len] padded
             | NONE \<Rightarrow> Inl UnknownPadType)))"

text \<open>
  \<^verbatim>\<open>DigitalFilterBase::trim\<close>. The sums \<open>len + timeShift\<close> and \<open>2 \<cdot> len\<close> are
  taken in \<open>nat\<close>; on a matrix that \<open>pad\<close> returned with a row count below
  \<open>2 ^ 64\<close> neither wraps around in the source.
\<close>

definition trim :: "'a Matrix \<Rightarrow> nat \<Rightarrow> nat \<Rightarrow> PadType \<Rightarrow> error + 'a Matrix" where
  "trim input len timeShift ptype =
     (if ptype = NONE then
        (if timeShift > 0
         then rowSlice input timeShift (usub (rows input) timeShift)
         else Inr input)
      else rowSlice input (len + timeShift)
             (usub (usub (rows input) (2 * len)) timeShift))"

subsection \<open>DigitalFilterARMA: coefficients and warmup\<close>

record DigitalFilterARMA =
  bn :: "real list"
  an :: "real list"
  bnStartIndex :: nat
  backward :: bool
  inFrequencyDomain :: bool
  padType :: PadType

text \<open>\<^verbatim>\<open>DigitalFilterARMA::warmup\<close>.\<close>

definition warmup :: "DigitalFilterARMA \<Rightarrow> nat" where
  "warmup f =
     max (max (usub (usub (length (bn f)) (bnStartIndex f)) 1) (bnStartIndex f))
         (3 * length (an f))"

subsection \<open>The round trip of pad and trim\<close>

text \<open>\<^verbatim>\<open>trim(pad(x, length, timeShift, padType), length, timeShift, padType)\<close>.\<close>

definition padThenTrim :: "'a::zero Matrix \<Rightarrow> nat \<Rightarrow> nat \<Rightarrow> PadType \<Rightarrow> error + 'a Matrix" where
  "padThenTrim x len timeShift ptype =
     bindE (pad x len timeShift ptype) (\<lambda>padded. trim padded len timeShift ptype)"

text \<open>
  The rows a padding policy asks of its input: at least one row for every policy but
  \<open>NONE\<close>, at least \<open>len\<close> rows for \<open>PERIODIC\<close>, at least \<open>len + 1\<close> for
  \<open>SYMMETRIC\<close>.
\<close>

definition enoughRows :: "PadType \<Rightarrow> nat \<Rightarrow> 'a Matrix \<Rightarrow> bool" where
  "enoughRows ptype len x =
     (case ptype of
        NONE \<Rightarrow> True
      | ZERO \<Rightarrow> 1 \<le> rows x
      | CONSTANT \<Rightarrow> 1 \<le> rows x
      | PERIODIC \<Rightarrow> 1 \<le> rows x \<and> len \<le> rows x
      | SYMMETRIC \<Rightarrow> len + 1 \<le> rows x)"

text \<open>
  Where \<open>pad\<close> puts its input: \<open>p\<close> has the padded shape and holds the rows of
  \<open>x\<close> from row \<open>len\<close> on.
\<close>

definition paddedLayout :: "'a Matrix \<Rightarrow> nat \<Rightarrow> nat \<Rightarrow> 'a Matrix \<Rightarrow> bool" where
  "paddedLayout x len timeShift p \<longleftrightarrow>
     rows p = 2 * len + rows x + timeShift \<and> columns p = columns x \<and>
     (wellFormed x \<longrightarrow> wellFormed p) \<and>
     (\<forall>i<rows x. rowData p ! (len + i) = rowData x ! i)"

subsection \<open>Dense linear algebra used by the time-domain path\<close>

text \<open>
  Element \<open>(i, j)\<close> of a matrix, and the matrix of a given shape and given elements.
  The operations below read elements inside the matrix only, behind their range checks.
\<close>

definition entry :: "'a Matrix \<Rightarrow> nat \<Rightarrow> nat \<Rightarrow> 'a" where
  "entry m i j = rowData m ! i ! j"

definition matrixOf :: "nat \<Rightarrow> nat \<Rightarrow> (nat \<Rightarrow> nat \<Rightarrow> 'a) \<Rightarrow> 'a Matrix" where
  "matrixOf r c g = \<lparr>columns = c, rowData = map (\<lambda>i. map (g i) [0..<c]) [0..<r]\<rparr>"

text \<open>Modelled from the spec: a \<^verbatim>\<open>Vector\<close> is a matrix of one column.\<close>

definition columnVector :: "'a list \<Rightarrow> 'a Matrix" where
  "columnVector v = \<lparr>columns = 1, rowData = map (\<lambda>x. [x]) v\<rparr>"

text \<open>
  Modelled from the spec: \<^verbatim>\<open>m.slice(r, c, h, w)\<close>, read: the block of \<open>h\<close> rows and
  \<open>w\<close> columns at \<open>(r, c)\<close>.
\<close>

definition slice :: "'a Matrix \<Rightarrow> nat \<Rightarrow> nat \<Rightarrow> nat \<Rightarrow> nat \<Rightarrow> error + 'a Matrix" where
  "slice m r c h w =
     (if r + h \<le> rows m \<and> c + w \<le> columns m
      then Inr (matrixOf h w (\<lambda>i j. entry m (r + i) (c + j)))
      else Inl SliceOutOfRange)"

text \<open>
  Modelled from the spec: \<^verbatim>\<open>copy(src, dst.slice(r, c, src.rows(), src.columns()))\<close>,
  which overwrites a block of \<open>dst\<close>.
\<close>

definition copyBlock :: "'a Matrix \<Rightarrow> 'a Matrix \<Rightarrow> nat \<Rightarrow> nat \<Rightarrow> error + 'a Matrix" where
  "copyBlock src dst r c =
     (if r + rows src \<le> rows dst \<and> c + columns src \<le> columns dst
      then Inr (matrixOf (rows dst) (columns dst)
             (\<lambda>i j. if r \<le> i \<and> i < r + rows src \<and> c \<le> j \<and> j < c + columns src
                    then entry src (i - r) (j - c) else entry dst i j))
      else Inl SliceOutOfRange)"

text \<open>Modelled from the spec: \<^verbatim>\<open>swap(m.row(i), m.row(j))\<close>.\<close>

definition swapRows :: "'a Matrix \<Rightarrow> nat \<Rightarrow> nat \<Rightarrow> error + 'a Matrix" where
  "swapRows m i j =
     (if i < rows m \<and> j < rows m
      then Inr (m\<lparr>rowData := (rowData m)[i := rowData m ! j, j := rowData m ! i]\<rparr>)
      else Inl SliceOutOfRange)"

text \<open>
  The loop \<^verbatim>\<open>for(UInt k = 0; k < m.rows()/2; k++) swap(m.row(k), m.row(m.rows() - k - 1))\<close>
  of \<^verbatim>\<open>DigitalFilterARMA::filter\<close>, run before and after a backward filter.
\<close>

definition reverseRows :: "'a Matrix \<Rightarrow> error + 'a Matrix" where
  "reverseRows m =
     foldE (\<lambda>k p. swapRows p k (usub (usub (rows p) k) 1)) [0..<rows m div 2] m"

text \<open>
  Modelled from the spec: \<^verbatim>\<open>matMult\<close> is part of the matrix library, which is not in
  the sources at hand; the spec names it "matrix multiply". As the filter calls it,
  \<^verbatim>\<open>matMult(c, A, B, C)\<close> adds \<open>c \<cdot> A \<cdot> B\<close> to \<open>C\<close> in place; operands whose
  shapes do not fit are an exception.
\<close>

definition matMult :: "real \<Rightarrow> real Matrix \<Rightarrow> real Matrix \<Rightarrow> real Matrix \<Rightarrow> error + real Matrix" where
  "matMult c A B C =
     (if columns A = rows B \<and> rows A = rows C \<and> columns B = columns C
      then Inr (matrixOf (rows C) (columns C)
             (\<lambda>i j. entry C i j + c * (\<Sum>l\<leftarrow>[0..<columns A]. entry A i l * entry B l j)))
      else Inl DimensionMismatch)"

text \<open>
  Modelled from the spec: \<^verbatim>\<open>triangularSolve\<close> is part of the matrix library, which is
  not in the sources at hand; the spec names it "solving a triangular linear system in
  place". \<^verbatim>\<open>triangularSolve(c, L, B)\<close> replaces \<open>B\<close> by the solution \<open>X\<close> of
  \<open>L \<cdot> X = c \<cdot> B\<close>, reading the lower triangle of \<open>L\<close> only: forward substitution,
  row by row.
\<close>

definition forwardSubstitution :: "real \<Rightarrow> real Matrix \<Rightarrow> real Matrix \<Rightarrow> real list list" where
  "forwardSubstitution c L B =
     fold (\<lambda>i X. X @ [map (\<lambda>j. (c * entry B i j
                                  - (\<Sum>l\<leftarrow>[0..<i]. entry L i l * (X ! l ! j))) / entry L i i)
                         [0..<columns B]])
          [0..<rows B] []"

definition triangularSolve :: "real \<Rightarrow> real Matrix \<Rightarrow> real Matrix \<Rightarrow> error + real Matrix" where
  "triangularSolve c L B =
     (if rows L = columns L \<and> rows L = rows B
      then Inr \<lparr>columns = columns B, rowData = forwardSubstitution c L B\<rparr>
      else Inl DimensionMismatch)"

subsection \<open>DigitalFilterARMA: frequency response\<close>

text \<open>
  Modelled from the spec: in the frequency response the vectors are lists;
  \<^verbatim>\<open>v.row(start, len)\<close> is a range of a vector, and a range that leaves the vector is
  an exception.
\<close>

definition vectorSlice :: "'a list \<Rightarrow> nat \<Rightarrow> nat \<Rightarrow> error + 'a list" where
  "vectorSlice v start len =
     (if start + len \<le> length v then Inr (take len (drop start v)) else Inl SliceOutOfRange)"

text \<open>Modelled from the spec: \<^verbatim>\<open>copy(src, dst.row(start, len))\<close> for vectors.\<close>

definition copyVector :: "'a list \<Rightarrow> 'a list \<Rightarrow> nat \<Rightarrow> nat \<Rightarrow> error + 'a list" where
  "copyVector src dst start len =
     (if start + len \<le> length dst
      then (if length src = len
            then Inr (take start dst @ src @ drop (start + len) dst)
            else Inl DimensionMismatch)
      else Inl SliceOutOfRange)"

text \<open>
  Modelled from the spec: \<^verbatim>\<open>std::swap(v(i), v(j))\<close> with the element access
  \<^verbatim>\<open>v(i)\<close> of \<^verbatim>\<open>Vector\<close>. An access outside the vector has no defined result;
  the model makes it the error \<open>IndexOutOfRange\<close>, so that nothing is computed
  from such an access.
\<close>

definition swapElements :: "'a list \<Rightarrow> nat \<Rightarrow> nat \<Rightarrow> error + 'a list" where
  "swapElements v i j =
     (if i < length v \<and> j < length v
      then Inr (v[i := v ! j, j := v ! i])
      else Inl IndexOutOfRange)"

text \<open>
  The body of the reflection loop of \<^verbatim>\<open>frequencyResponse\<close>, on the pair
  \<open>(aPad, bPad)\<close>.
\<close>

definition reflectStep :: "nat \<Rightarrow> real list \<times> real list \<Rightarrow> error + (real list \<times> real list)" where
  "reflectStep k ab =
     (case ab of (aPad, bPad) \<Rightarrow>
        bindE (swapElements aPad (k + 1) (usub (usub (length aPad) 1) k)) (\<lambda>aPad'.
        bindE (swapElements bPad (k + 1) (usub (usub (length bPad) 1) k)) (\<lambda>bPad'.
        Inr (aPad', bPad'))))"

text \<open>
  \<^verbatim>\<open>DigitalFilterARMA::frequencyResponse\<close>, first half: the check of \<open>len\<close>, the two
  padded coefficient vectors, and their reflection for a backward filter.
\<close>

definition paddedCoefficients :: "DigitalFilterARMA \<Rightarrow> nat \<Rightarrow> error + (real list \<times> real list)" where
  "paddedCoefficients f len =
     (if length (bn f) > len \<or> length (an f) > len then Inl ResponseLengthTooShort
      else
        bindE (vectorSlice (bn f) (bnStartIndex f) (usub (length (bn f)) (bnStartIndex f))) (\<lambda>tail.
        bindE (copyVector tail (replicate len 0) 0 (usub (length (bn f)) (bnStartIndex f))) (\<lambda>bPad0.
        bindE (vectorSlice (bn f) 0 (bnStartIndex f)) (\<lambda>head.
        bindE (copyVector head bPad0 (usub (length bPad0) (bnStartIndex f)) (bnStartIndex f)) (\<lambda>bPad.
        bindE (copyVector (an f) (replicate len 0) 0 (length (an f))) (\<lambda>aPad.
        if backward f
        then foldE reflectStep [0..<max (length (bn f)) (length (an f))] (aPad, bPad)
        else Inr (aPad, bPad)))))))"

text \<open>
  One bin of the response: \<^verbatim>\<open>(std::abs(A.at(k))>0.) ? (B.at(k)/A.at(k)) : 1.\<close>.
  \<^verbatim>\<open>at\<close> is checked and throws outside the vector.
\<close>

definition responseBin :: "complex list \<Rightarrow> complex list \<Rightarrow> nat \<Rightarrow> error + complex" where
  "responseBin A B k =
     (if k < length A
      then (if cmod (A ! k) > 0
            then (if k < length B then Inr (B ! k / A ! k) else Inl IndexOutOfRange)
            else Inr 1)
      else Inl IndexOutOfRange)"

definition responseBins :: "complex list \<Rightarrow> complex list \<Rightarrow> error + complex list" where
  "responseBins A B =
     foldE (\<lambda>k F. bindE (responseBin A B k) (\<lambda>v.
                    if k < length F then Inr (F[k := v]) else Inl IndexOutOfRange))
       [0..<length A] (replicate (length A) 0)"

text \<open>
  \<^verbatim>\<open>DigitalFilterARMA::frequencyResponse\<close>. \<^verbatim>\<open>Fourier::fft\<close> is not part of the
  sources at hand and is a parameter.
\<close>

definition frequencyResponse_arma ::
    "(real list \<Rightarrow> complex list) \<Rightarrow> DigitalFilterARMA \<Rightarrow> nat \<Rightarrow> error + complex list" where
  "frequencyResponse_arma fft f len =
     bindE (paddedCoefficients f len) (\<lambda>ab.
       case ab of (aPad, bPad) \<Rightarrow> responseBins (fft aPad) (fft bPad))"

subsection \<open>DigitalFilterARMA: filter\<close>

text \<open>
  The banded matrix of the coefficients: \<^verbatim>\<open>Matrix B(bn.rows() + blockSize - 1, blockSize)\<close>
  and the loop \<^verbatim>\<open>copy(bn, B.slice(k, k, bn.rows(), 1))\<close> over the columns \<open>k\<close>.
\<close>

definition bandMatrix :: "real list \<Rightarrow> nat \<Rightarrow> error + real Matrix" where
  "bandMatrix coefficients blockSize =
     foldE (\<lambda>k B. copyBlock (columnVector coefficients) B k k) [0..<blockSize]
       (zeroMatrix (usub (length coefficients + blockSize) 1) blockSize)"

text \<open>
  The values \<open>idxStart\<close> takes in
  \<^verbatim>\<open>for(UInt idxStart = 0; idxStart < n; idxStart += blockSize)\<close>. The block size is
  \<open>min 64 n\<close>, which is zero only for \<open>n = 0\<close>, where the body never runs.
\<close>

definition blockStarts :: "nat \<Rightarrow> nat \<Rightarrow> nat list" where
  "blockStarts n blockSize = map (\<lambda>j. j * blockSize) [0..<(n + blockSize - 1) div blockSize]"

text \<open>The body of the feed-forward loop.\<close>

definition firBlock :: "real Matrix \<Rightarrow> real Matrix \<Rightarrow> nat \<Rightarrow> nat \<Rightarrow> real Matrix \<Rightarrow> error + real Matrix" where
  "firBlock B padded blockSize idxStart output =
     (let columnCount = min (usub (rows output) idxStart) blockSize;
          rowCount = min (usub (rows output) idxStart) (rows B)
      in bindE (slice B 0 0 rowCount columnCount) (\<lambda>Bs.
         bindE (rowSlice padded idxStart columnCount) (\<lambda>Ps.
         bindE (rowSlice output idxStart rowCount) (\<lambda>Os.
         bindE (matMult 1 Bs Ps Os) (\<lambda>Os'.
         copyRows Os' output idxStart)))))"

text \<open>
  The body of the feedback loop: the coupling to the block before, then the triangular
  solve of the block itself.
\<close>

definition arBlock :: "real Matrix \<Rightarrow> nat \<Rightarrow> nat \<Rightarrow> nat \<Rightarrow> real Matrix \<Rightarrow> error + real Matrix" where
  "arBlock A anSize blockSize idxStart output =
     (let columnCount = min (usub (rows output) idxStart) blockSize
      in bindE (if idxStart > 0
                then (let m = min (usub anSize 1) columnCount
                      in bindE (rowSlice A blockSize m) (\<lambda>As.
                         bindE (rowSlice output (usub idxStart blockSize) blockSize) (\<lambda>previous.
                         bindE (rowSlice output idxStart m) (\<lambda>Os.
                         bindE (matMult (- 1) As previous Os) (\<lambda>Os'.
                         copyRows Os' output idxStart)))))
                else Inr output) (\<lambda>output1.
         bindE (slice A 0 0 columnCount columnCount) (\<lambda>A1.
         bindE (rowSlice output1 idxStart columnCount) (\<lambda>Os.
         bindE (triangularSolve 1 A1 Os) (\<lambda>Os'.
         copyRows Os' output1 idxStart)))))"

text \<open>The time-domain path between \<open>pad\<close> and \<open>trim\<close>.\<close>

definition filterTimeDomain :: "DigitalFilterARMA \<Rightarrow> real Matrix \<Rightarrow> error + real Matrix" where
  "filterTimeDomain f padded0 =
     bindE (if backward f then reverseRows padded0 else Inr padded0) (\<lambda>padded.
       let output = zeroMatrix (rows padded) (columns padded);
           blockSize = min 64 (rows padded)
       in bindE (bandMatrix (bn f) blockSize) (\<lambda>B.
          bindE (foldE (firBlock B padded blockSize)
                   (blockStarts (rows output) blockSize) output) (\<lambda>output1.
          bindE (if length (an f) > 1
                 then bindE (bandMatrix (an f) blockSize) (\<lambda>A.
                        foldE (arBlock A (length (an f)) blockSize)
                          (blockStarts (rows output1) blockSize) output1)
                 else Inr output1) (\<lambda>output2.
          if backward f then reverseRows output2 else Inr output2))))"

text \<open>Modelled from the spec: \<^verbatim>\<open>m.column(k)\<close> and \<^verbatim>\<open>copy(v, m.column(k))\<close>.\<close>

definition column :: "'a Matrix \<Rightarrow> nat \<Rightarrow> error + 'a list" where
  "column m k =
     (if k < columns m then Inr (map (\<lambda>r. r ! k) (rowData m)) else Inl SliceOutOfRange)"

definition setColumn :: "'a Matrix \<Rightarrow> nat \<Rightarrow> 'a list \<Rightarrow> error + 'a Matrix" where
  "setColumn m k v =
     (if k < columns m
      then (if length v = rows m
            then Inr (m\<lparr>rowData := map (\<lambda>(r, x). r[k := x]) (zip (rowData m) v)\<rparr>)
            else Inl DimensionMismatch)
      else Inl SliceOutOfRange)"

text \<open>
  \<^verbatim>\<open>F.at(k) *= H.at(k)\<close> on \<^verbatim>\<open>std::vector\<close>: \<^verbatim>\<open>at\<close> throws outside the
  vector.
\<close>

definition multiplyAt :: "complex list \<Rightarrow> complex list \<Rightarrow> nat \<Rightarrow> error + complex list" where
  "multiplyAt F H k =
     (if k < length F \<and> k < length H then Inr (F[k := F ! k * H ! k]) else Inl IndexOutOfRange)"

text \<open>
  The body of the column loop of the frequency-domain path. \<^verbatim>\<open>Fourier::fft\<close> and
  \<^verbatim>\<open>Fourier::synthesis\<close> are not part of the sources at hand and are parameters.
\<close>

definition filterColumn ::
    "(real list \<Rightarrow> complex list) \<Rightarrow> (complex list \<Rightarrow> bool \<Rightarrow> real list) \<Rightarrow> complex list
      \<Rightarrow> nat \<Rightarrow> real Matrix \<Rightarrow> error + real Matrix" where
  "filterColumn fft synthesis H k padded =
     bindE (column padded k) (\<lambda>col.
     bindE (foldE (\<lambda>i F. multiplyAt F H i) [0..<length (fft col)] (fft col)) (\<lambda>F.
     setColumn padded k (synthesis F (rows padded mod 2 = 0))))"

text \<open>\<^verbatim>\<open>DigitalFilterARMA::filter\<close>.\<close>

definition filter_arma ::
    "(real list \<Rightarrow> complex list) \<Rightarrow> (complex list \<Rightarrow> bool \<Rightarrow> real list)
      \<Rightarrow> DigitalFilterARMA \<Rightarrow> real Matrix \<Rightarrow> error + real Matrix" where
  "filter_arma fft synthesis f input =
     (if rows input < warmup f then Inl InsufficientInputLength
      else if inFrequencyDomain f then
        bindE (pad input (warmup f) (bnStartIndex f) (padType f)) (\<lambda>padded.
        bindE (frequencyResponse_arma fft f (rows padded)) (\<lambda>H.
        bindE (foldE (filterColumn fft synthesis H) [0..<columns padded] padded) (\<lambda>padded'.
        trim padded' (warmup f) (bnStartIndex f) (padType f))))
      else
        bindE (pad input (warmup f) (bnStartIndex f) (padType f)) (\<lambda>padded.
        bindE (filterTimeDomain f padded) (\<lambda>output.
        trim output (warmup f) (bnStartIndex f) (padType f))))"

text \<open>The identity filter: \<open>bn = [1]\<close>, \<open>an = [1]\<close>, \<open>bnStartIndex = 0\<close>, forward, time domain.\<close>

definition identityFilter :: "PadType \<Rightarrow> DigitalFilterARMA" where
  "identityFilter ptype =
     \<lparr>bn = [1], an = [1], bnStartIndex = 0, backward = False,
      inFrequencyDomain = False, padType = ptype\<rparr>"

subsection \<open>DigitalFilter: a chain of filters\<close>

text \<open>
  A member of the chain is any implementation of the filter interface; the chain's
  \<^verbatim>\<open>frequencyResponse\<close> uses only the member's \<^verbatim>\<open>frequencyResponse(length)\<close>,
  which is what a member is here.
\<close>

type_synonym DigitalFilterBase = "nat \<Rightarrow> error + complex list"

text \<open>The outer loop of \<^verbatim>\<open>DigitalFilter::frequencyResponse\<close> over the members.\<close>

fun multiplyResponses :: "DigitalFilterBase list \<Rightarrow> nat \<Rightarrow> complex list \<Rightarrow> error + complex list" where
  "multiplyResponses [] len F = Inr F"
| "multiplyResponses (flt # filters) len F =
     bindE (flt len) (\<lambda>H.
     bindE (foldE (\<lambda>k F. multiplyAt F H k) [0..<length H] F) (\<lambda>F'.
     multiplyResponses filters len F'))"

text \<open>
  \<^verbatim>\<open>DigitalFilter::frequencyResponse\<close>. The size \<^verbatim>\<open>(length+2)/2\<close> of \<open>F\<close> is
  computed in \<^verbatim>\<open>UInt\<close>: the sum wraps around at \<open>2 ^ 64\<close>.
\<close>

definition frequencyResponse_chain :: "DigitalFilterBase list \<Rightarrow> nat \<Rightarrow> error + complex list" where
  "frequencyResponse_chain filters len =
     multiplyResponses filters len (replicate (((len + 2) mod 2 ^ 64) div 2) 1)"

subsection \<open>Shapes\<close>

definition sameShape :: "'a Matrix \<Rightarrow> 'a Matrix \<Rightarrow> bool" where
  "sameShape a b \<longleftrightarrow> rows a = rows b \<and> columns a = columns b"

section \<open>Properties\<close>

subsection \<open>Loops\<close>

lemma responseBin_code [code]:
  "responseBin A B k =
     (if k < length A
      then (if A ! k \<noteq> 0
            then (if k < length B then Inr (B ! k / A ! k) else Inl IndexOutOfRange)
            else Inr 1)
      else Inl IndexOutOfRange)"
  by (simp add: responseBin_def)

lemma bindE_Inr [simp]: "bindE (Inr v) k = k v"
  by (simp add: bindE_def)

lemma bindE_Inl [simp]: "bindE (Inl e) k = Inl e"
  by (simp add: bindE_def)

lemma bindE_eq_Inr:
  "bindE r k = Inr y \<longleftrightarrow> (\<exists>v. r = Inr v \<and> k v = Inr y)"
  by (cases r) simp_all

lemma foldE_append:
  "foldE body (ks @ ks') s = bindE (foldE body ks s) (foldE body ks')"
  by (induction ks arbitrary: s) (simp_all split: sum.splits)

lemma foldE_map: "foldE body (map g ks) s = foldE (\<lambda>k. body (g k)) ks s"
  by (induction ks arbitrary: s) (simp_all split: sum.splits)

text \<open>A loop whose body keeps an invariant and never throws under it returns, keeping it.\<close>

lemma foldE_invariant:
  assumes "\<And>k s. k \<in> set ks \<Longrightarrow> I s \<Longrightarrow> \<exists>s'. body k s = Inr s' \<and> I s'"
    and "I s"
  shows "\<exists>s'. foldE body ks s = Inr s' \<and> I s'"
  using assms
proof (induction ks arbitrary: s)
  case Nil
  then show ?case by simp
next
  case (Cons k ks)
  from Cons.prems obtain s1 where s1: "body k s = Inr s1" "I s1"
    by (meson list.set_intros(1))
  have "\<exists>s'. foldE body ks s1 = Inr s' \<and> I s'"
    by (rule Cons.IH) (use Cons.prems(1) s1 in auto)
  with s1 show ?case by simp
qed

text \<open>The same for an invariant that counts the iterations done.\<close>

lemma foldE_upt_invariant:
  assumes "I 0 s"
    and "\<And>k t. k < n \<Longrightarrow> I k t \<Longrightarrow> \<exists>t'. body k t = Inr t' \<and> I (Suc k) t'"
  shows "\<exists>s'. foldE body [0..<n] s = Inr s' \<and> I n s'"
  using assms(2)
proof (induction n)
  case 0
  with assms(1) show ?case by simp
next
  case (Suc n)
  have "\<exists>t. foldE body [0..<n] s = Inr t \<and> I n t"
    by (rule Suc.IH) (use Suc.prems in auto)
  then obtain t where t: "foldE body [0..<n] s = Inr t" "I n t" by blast
  from Suc.prems[of n t] t(2) obtain t' where "body n t = Inr t'" "I (Suc n) t'" by auto
  with t show ?case by (simp add: foldE_append)
qed

text \<open>Whatever a loop returns keeps what every returning step of its body keeps.\<close>

lemma foldE_preserves:
  assumes "foldE body ks s = Inr s'"
    and "Q s"
    and "\<And>k t t'. Q t \<Longrightarrow> body k t = Inr t' \<Longrightarrow> Q t'"
  shows "Q s'"
  using assms(1,2)
proof (induction ks arbitrary: s)
  case Nil
  then show ?case by simp
next
  case (Cons k ks)
  from Cons.prems(1) obtain t where t: "body k s = Inr t" "foldE body ks t = Inr s'"
    by (auto split: sum.splits)
  from assms(3)[OF Cons.prems(2) t(1)] have "Q t" .
  with Cons.IH t(2) show ?case by blast
qed

subsection \<open>pad and trim\<close>

lemma copyRows_zero_layout:
  "\<exists>p. copyRows x (zeroMatrix (2 * len + rows x + ts) (columns x)) len = Inr p
       \<and> paddedLayout x len ts p"
  by (auto simp: copyRows_def paddedLayout_def rows_def zeroMatrix_def nth_append
        wellFormed_def list_all_iff dest: in_set_takeD in_set_dropD)

lemma copyRow_outside:
  assumes "paddedLayout x len ts p" and "a < rows x"
    and "j < len \<or> (len + rows x \<le> j \<and> j < 2 * len + rows x + ts)"
  shows "\<exists>p'. copyRow x a p j = Inr p' \<and> paddedLayout x len ts p'"
proof -
  let ?p' = "p\<lparr>rowData := (rowData p)[j := rowData x ! a]\<rparr>"
  have c: "copyRow x a p j = Inr ?p'"
    using assms by (auto simp: copyRow_def paddedLayout_def rows_def)
  have w: "wellFormed ?p'" if "wellFormed x"
  proof -
    from that assms(1) have "wellFormed p" by (simp add: paddedLayout_def)
    moreover from that assms(2) have "length (rowData x ! a) = columns x"
      by (simp add: wellFormed_def list_all_length rows_def)
    ultimately show ?thesis
      using assms(1)
      by (auto simp: wellFormed_def list_all_iff paddedLayout_def dest!: set_update_subset_insert[THEN subsetD])
  qed
  have "paddedLayout x len ts ?p'"
    using assms w by (auto simp: paddedLayout_def rows_def)
  with c show ?thesis by blast
qed

lemma two_copies:
  assumes "paddedLayout x len ts p" "a < rows x" "b < rows x" "j < len" "k < len"
  shows "\<exists>p'. (case copyRow x a p j of Inl e \<Rightarrow> Inl e
               | Inr q \<Rightarrow> copyRow x b q (rows x + len + k)) = Inr p' \<and> paddedLayout x len ts p'"
proof -
  from copyRow_outside[OF assms(1,2), of j] assms(4)
  obtain q where q: "copyRow x a p j = Inr q" "paddedLayout x len ts q" by auto
  from copyRow_outside[OF q(2) assms(3), of "rows x + len + k"] assms(5)
  obtain p' where "copyRow x b q (rows x + len + k) = Inr p'" "paddedLayout x len ts p'" by auto
  with q show ?thesis by simp
qed

text \<open>With enough rows for the policy, \<open>pad\<close> returns, and its input sits at row \<open>len\<close>.\<close>

lemma pad_layout:
  assumes "ptype \<noteq> NONE" "enoughRows ptype len x"
  shows "\<exists>p. pad x len ts ptype = Inr p \<and> paddedLayout x len ts p"
proof -
  obtain p0 where p0: "copyRows x (zeroMatrix (2 * len + rows x + ts) (columns x)) len = Inr p0"
      "paddedLayout x len ts p0"
    using copyRows_zero_layout by blast
  show ?thesis
  proof (cases ptype)
    case NONE
    with assms show ?thesis by simp
  next
    case ZERO
    with assms p0 show ?thesis by (simp add: pad_def enoughRows_def)
  next
    case CONSTANT
    with assms have n: "1 \<le> rows x" by (simp add: enoughRows_def)
    have "\<exists>p. foldE (\<lambda>k p. case copyRow x 0 p k of Inl e \<Rightarrow> Inl e
                 | Inr p' \<Rightarrow> copyRow x (usub (rows x) 1) p' (rows x + len + k)) [0..<len] p0 = Inr p
              \<and> paddedLayout x len ts p"
      by (rule foldE_invariant[where I = "paddedLayout x len ts"])
         (use n p0 in \<open>auto intro!: two_copies simp: usub_def\<close>)
    with CONSTANT n p0 show ?thesis by (simp add: pad_def)
  next
    case PERIODIC
    with assms have n: "1 \<le> rows x" "len \<le> rows x" by (simp_all add: enoughRows_def)
    have "\<exists>p. foldE (\<lambda>k p. case copyRow x (usub (rows x) len + k) p k of Inl e \<Rightarrow> Inl e
                 | Inr p' \<Rightarrow> copyRow x k p' (rows x + len + k)) [0..<len] p0 = Inr p
              \<and> paddedLayout x len ts p"
      by (rule foldE_invariant[where I = "paddedLayout x len ts"])
         (use n p0 in \<open>auto intro!: two_copies simp: usub_def\<close>)
    with PERIODIC n p0 show ?thesis by (simp add: pad_def)
  next
    case SYMMETRIC
    with assms have n: "len + 1 \<le> rows x" by (simp_all add: enoughRows_def)
    have "\<exists>p. foldE (\<lambda>k p. case copyRow x (k + 1) p (usub (usub len 1) k) of Inl e \<Rightarrow> Inl e
                 | Inr p' \<Rightarrow> copyRow x (usub (usub (rows x) 2) k) p' (rows x + len + k))
                [0..<len] p0 = Inr p
              \<and> paddedLayout x len ts p"
      by (rule foldE_invariant[where I = "paddedLayout x len ts"])
         (use n p0 in \<open>auto intro!: two_copies simp: usub_def\<close>)
    with SYMMETRIC n p0 show ?thesis by (simp add: pad_def)
  qed
qed

lemma trim_layout:
  assumes "ptype \<noteq> NONE" "rows p = 2 * len + n + ts"
  shows "trim p len ts ptype =
           Inr \<lparr>columns = columns p, rowData = take n (drop (len + ts) (rowData p))\<rparr>"
  using assms by (simp add: trim_def rowSlice_def usub_def)

text \<open>
  What \<open>trim\<close> returns from the padded matrix: the shape of \<open>x\<close>, and the rows of
  \<open>x\<close> moved up by \<open>timeShift\<close>.
\<close>

lemma padThenTrim_rows:
  assumes "ptype \<noteq> NONE" and "enoughRows ptype len x"
  shows "\<exists>y. padThenTrim x len timeShift ptype = Inr y
           \<and> rows y = rows x \<and> columns y = columns x
           \<and> (\<forall>i. i + timeShift < rows x \<longrightarrow> rowData y ! i = rowData x ! (i + timeShift))
           \<and> (timeShift = 0 \<longrightarrow> y = x)"
proof -
  from pad_layout[OF assms] obtain p where p: "pad x len timeShift ptype = Inr p"
    "paddedLayout x len timeShift p" by blast
  let ?y = "\<lparr>columns = columns x, rowData = take (rows x) (drop (len + timeShift) (rowData p))\<rparr>"
  have "trim p len timeShift ptype = Inr ?y"
    using p(2) trim_layout[OF assms(1), of p len "rows x" timeShift]
    by (simp add: paddedLayout_def)
  then have y: "padThenTrim x len timeShift ptype = Inr ?y"
    using p by (simp add: padThenTrim_def)
  have len: "length (rowData p) = 2 * len + rows x + timeShift"
    using p(2) by (simp add: paddedLayout_def rows_def)
  have r: "rows ?y = rows x" using len by (simp add: rows_def)
  have v: "rowData ?y ! i = rowData x ! (i + timeShift)" if "i + timeShift < rows x" for i
  proof -
    have "rowData ?y ! i = rowData p ! (len + (i + timeShift))"
      using that len by (simp add: add.assoc add.commute add.left_commute)
    also have "\<dots> = rowData x ! (i + timeShift)"
      using p(2) that by (simp add: paddedLayout_def)
    finally show ?thesis .
  qed
  have e: "?y = x" if "timeShift = 0"
  proof -
    have "rowData ?y = rowData x"
    proof (rule nth_equalityI)
      show "length (rowData ?y) = length (rowData x)" using r by (simp add: rows_def)
    next
      fix i assume "i < length (rowData ?y)"
      then have "i + timeShift < rows x" using that r by (simp add: rows_def)
      then show "rowData ?y ! i = rowData x ! i" using v that by simp
    qed
    then show ?thesis by simp
  qed
  from y r v e show ?thesis by (intro exI[of _ ?y]) simp
qed

subsection \<open>The chain's frequency response\<close>

lemma multiplyAt_loop:
  assumes "length H = length F"
  shows "foldE (\<lambda>k F. multiplyAt F H k) [0..<length H] F = Inr (map (\<lambda>(x, h). x * h) (zip F H))"
proof -
  define I where "I k G \<longleftrightarrow> length G = length F
      \<and> (\<forall>i<length F. G ! i = (if i < k then F ! i * H ! i else F ! i))" for k G
  have "\<exists>G. foldE (\<lambda>k F. multiplyAt F H k) [0..<length H] F = Inr G \<and> I (length H) G"
  proof (rule foldE_upt_invariant)
    show "I 0 F" by (simp add: I_def)
  next
    fix k G assume k: "k < length H" and G: "I k G"
    from k G assms have "multiplyAt G H k = Inr (G[k := G ! k * H ! k])"
      by (simp add: multiplyAt_def I_def)
    moreover from k G assms have "I (Suc k) (G[k := G ! k * H ! k])"
      by (auto simp: I_def nth_list_update less_Suc_eq)
    ultimately show "\<exists>G'. multiplyAt G H k = Inr G' \<and> I (Suc k) G'" by blast
  qed
  then obtain G where G: "foldE (\<lambda>k F. multiplyAt F H k) [0..<length H] F = Inr G"
    "I (length H) G" by blast
  have "G = map (\<lambda>(x, h). x * h) (zip F H)"
    using G(2) assms by (auto simp: I_def intro!: nth_equalityI)
  with G(1) show ?thesis by simp
qed

lemma multiplyResponses_product:
  assumes "\<forall>flt \<in> set filters. \<exists>H. flt len = Inr H \<and> length H = m"
    and "length F = m"
  shows "\<exists>F'. multiplyResponses filters len F = Inr F' \<and> length F' = m
           \<and> (\<forall>k<m. F' ! k = F ! k * prod_list (map (\<lambda>flt. projr (flt len) ! k) filters))"
  using assms
proof (induction filters arbitrary: F)
  case Nil
  then show ?case by simp
next
  case (Cons flt filters)
  from Cons.prems(1) obtain H where H: "flt len = Inr H" "length H = m" by auto
  let ?F1 = "map (\<lambda>(x, h). x * h) (zip F H)"
  have loop: "foldE (\<lambda>k F. multiplyAt F H k) [0..<length H] F = Inr ?F1"
    using H(2) Cons.prems(2) by (intro multiplyAt_loop) simp
  have len1: "length ?F1 = m" using H(2) Cons.prems(2) by simp
  from Cons.IH[OF _ len1] Cons.prems(1)
  obtain F' where F': "multiplyResponses filters len ?F1 = Inr F'" "length F' = m"
    "\<forall>k<m. F' ! k = ?F1 ! k * prod_list (map (\<lambda>flt. projr (flt len) ! k) filters)"
    by auto
  have "F' ! k = F ! k * prod_list (map (\<lambda>flt. projr (flt len) ! k) (flt # filters))"
    if "k < m" for k
    using that F'(3) H Cons.prems(2) by (simp add: mult.assoc)
  with F'(1,2) H(1) loop show ?case by simp
qed

lemma multiplyResponses_from_ones:
  assumes "\<forall>flt \<in> set filters. \<exists>H. flt len = Inr H \<and> length H = m"
  shows "\<exists>F. multiplyResponses filters len (replicate m 1) = Inr F
           \<and> length F = m
           \<and> (\<forall>k<m. F ! k = prod_list (map (\<lambda>flt. projr (flt len) ! k) filters))
           \<and> (filters = [] \<longrightarrow> F = replicate m 1)"
proof -
  from multiplyResponses_product[OF assms, of "replicate m 1"]
  obtain F where F: "multiplyResponses filters len (replicate m 1) = Inr F"
    "length F = m"
    "\<forall>k<m. F ! k = replicate m 1 ! k * prod_list (map (\<lambda>flt. projr (flt len) ! k) filters)"
    by auto
  have "filters = [] \<longrightarrow> F = replicate m 1"
    using F(1) by auto
  moreover have "\<forall>k<m. F ! k = prod_list (map (\<lambda>flt. projr (flt len) ! k) filters)"
    using F(3) by simp
  ultimately show ?thesis using F(1,2) by blast
qed

subsection \<open>The frequency response of an ARMA filter\<close>

text \<open>
  The padded vectors before the reflection: \<open>an\<close> at the start; the tail of \<open>bn\<close>
  from \<open>bnStartIndex\<close> on at the start and its head at the end.
\<close>

lemma paddedCoefficients_forward:
  assumes "bnStartIndex f \<le> length (bn f)" and "length (bn f) \<le> len" and "length (an f) \<le> len"
  shows "paddedCoefficients f len =
           (if backward f
            then foldE reflectStep [0..<max (length (bn f)) (length (an f))]
                   (an f @ replicate (len - length (an f)) 0,
                    drop (bnStartIndex f) (bn f) @ replicate (len - length (bn f)) 0
                      @ take (bnStartIndex f) (bn f))
            else Inr (an f @ replicate (len - length (an f)) 0,
                      drop (bnStartIndex f) (bn f) @ replicate (len - length (bn f)) 0
                        @ take (bnStartIndex f) (bn f)))"
proof -
  let ?s = "bnStartIndex f"
  have u: "usub (length (bn f)) ?s = length (bn f) - ?s"
    using assms(1) by (simp add: usub_def)
  have t: "vectorSlice (bn f) ?s (length (bn f) - ?s) = Inr (drop ?s (bn f))"
    using assms(1) by (simp add: vectorSlice_def)
  have b0: "copyVector (drop ?s (bn f)) (replicate len 0) 0 (length (bn f) - ?s)
              = Inr (drop ?s (bn f) @ replicate (len - (length (bn f) - ?s)) 0)"
    using assms by (simp add: copyVector_def)
  have h: "vectorSlice (bn f) 0 ?s = Inr (take ?s (bn f))"
    using assms(1) by (simp add: vectorSlice_def)
  have l0: "length (drop ?s (bn f) @ replicate (len - (length (bn f) - ?s)) (0::real)) = len"
    using assms by simp
  have u2: "usub len ?s = len - ?s" using assms by (simp add: usub_def)
  have b: "copyVector (take ?s (bn f)) (drop ?s (bn f) @ replicate (len - (length (bn f) - ?s)) 0)
              (len - ?s) ?s
           = Inr (drop ?s (bn f) @ replicate (len - length (bn f)) 0 @ take ?s (bn f))"
    using assms by (simp add: copyVector_def min_def)
  have a: "copyVector (an f) (replicate len 0) 0 (length (an f))
           = Inr (an f @ replicate (len - length (an f)) 0)"
    using assms by (simp add: copyVector_def)
  show ?thesis
    unfolding paddedCoefficients_def
    using assms(2,3) by (simp add: u t b0 h l0 u2 b a del: length_append length_drop length_replicate)
qed

lemma reflectStep_inside:
  assumes "length a = len" "length b = len" "k + 1 < len"
  shows "\<exists>a' b'. reflectStep k (a, b) = Inr (a', b') \<and> length a' = len \<and> length b' = len"
  using assms by (simp add: reflectStep_def swapElements_def usub_def)

lemma reflectStep_outside:
  assumes "length a = len" "k + 1 = len"
  shows "reflectStep k (a, b) = Inl IndexOutOfRange"
  using assms by (auto simp add: reflectStep_def swapElements_def)

lemma reflection_loop_inside:
  assumes "length a = len" "length b = len" "m < len"
  shows "\<exists>a' b'. foldE reflectStep [0..<m] (a, b) = Inr (a', b') \<and> length a' = len \<and> length b' = len"
proof -
  have "\<exists>s'. foldE reflectStep [0..<m] (a, b) = Inr s'
          \<and> (case s' of (a', b') \<Rightarrow> length a' = len \<and> length b' = len)"
  proof (rule foldE_invariant)
    show "case (a, b) of (a', b') \<Rightarrow> length a' = len \<and> length b' = len"
      using assms by simp
  next
    fix k and s :: "real list \<times> real list"
    assume "k \<in> set [0..<m]" and "case s of (a', b') \<Rightarrow> length a' = len \<and> length b' = len"
    with assms(3) reflectStep_inside[of "fst s" len "snd s" k]
    show "\<exists>s'. reflectStep k s = Inr s'
            \<and> (case s' of (a', b') \<Rightarrow> length a' = len \<and> length b' = len)"
      by (cases s) auto
  qed
  then show ?thesis by auto
qed

lemma reflection_loop_outside:
  assumes "length a = len" "length b = len" "0 < len"
  shows "foldE reflectStep [0..<len] (a, b) = Inl IndexOutOfRange"
proof -
  obtain n where n: "len = Suc n" using assms(3) by (cases len) auto
  from reflection_loop_inside[OF assms(1,2), of n] n
  obtain a' b' where p: "foldE reflectStep [0..<n] (a, b) = Inr (a', b')"
    "length a' = len" "length b' = len" by auto
  have "reflectStep n (a', b') = Inl IndexOutOfRange"
    using p(2) n by (intro reflectStep_outside) simp_all
  with p(1) show ?thesis by (simp add: n foldE_append)
qed

text \<open>
  The reflection loop runs \<open>k\<close> up to \<open>max (length bn) (length an) - 1\<close> and
  accesses index \<open>k + 1\<close>. At the smallest length the check of \<open>len\<close> accepts, the
  last access is at index \<open>len\<close>, outside the vectors; at every greater length all
  accesses are inside.
\<close>

lemma reflection_at_smallest_length:
  assumes "backward f" and "bnStartIndex f \<le> length (bn f)"
    and "0 < max (length (bn f)) (length (an f))"
    and "len = max (length (bn f)) (length (an f))"
  shows "paddedCoefficients f len = Inl IndexOutOfRange"
proof -
  have le: "length (bn f) \<le> len" "length (an f) \<le> len" using assms(4) by simp_all
  have "paddedCoefficients f len = foldE reflectStep [0..<len]
                   (an f @ replicate (len - length (an f)) 0,
                    drop (bnStartIndex f) (bn f) @ replicate (len - length (bn f)) 0
                      @ take (bnStartIndex f) (bn f))"
    using paddedCoefficients_forward[OF assms(2) le] assms(1,4) by simp
  also have "\<dots> = Inl IndexOutOfRange"
    using le assms(2,3,4) by (intro reflection_loop_outside) auto
  finally show ?thesis .
qed

lemma reflection_above_smallest_length:
  assumes "bnStartIndex f \<le> length (bn f)"
    and "max (length (bn f)) (length (an f)) < len"
  shows "\<exists>aPad bPad. paddedCoefficients f len = Inr (aPad, bPad)
           \<and> length aPad = len \<and> length bPad = len"
proof -
  have le: "length (bn f) \<le> len" "length (an f) \<le> len" using assms(2) by simp_all
  show ?thesis
  proof (cases "backward f")
    case True
    have "\<exists>a' b'. foldE reflectStep [0..<max (length (bn f)) (length (an f))]
                   (an f @ replicate (len - length (an f)) 0,
                    drop (bnStartIndex f) (bn f) @ replicate (len - length (bn f)) 0
                      @ take (bnStartIndex f) (bn f)) = Inr (a', b') \<and> length a' = len \<and> length b' = len"
      using le assms by (intro reflection_loop_inside) auto
    with True paddedCoefficients_forward[OF assms(1) le] show ?thesis by simp
  next
    case False
    with paddedCoefficients_forward[OF assms(1) le] le assms(1) show ?thesis by simp
  qed
qed

lemma responseBins_value:
  assumes "length A \<le> length B"
  shows "responseBins A B
           = Inr (map (\<lambda>k. if cmod (A ! k) > 0 then B ! k / A ! k else 1) [0..<length A])"
proof -
  let ?g = "\<lambda>k. if cmod (A ! k) > 0 then B ! k / A ! k else 1"
  let ?body = "\<lambda>k F. bindE (responseBin A B k) (\<lambda>v.
                    if k < length F then Inr (F[k := v]) else Inl IndexOutOfRange)"
  define I where "I k F \<longleftrightarrow> length F = length A \<and> (\<forall>i<k. F ! i = ?g i)" for k and F :: "complex list"
  have "\<exists>F. foldE ?body [0..<length A] (replicate (length A) 0) = Inr F \<and> I (length A) F"
  proof (rule foldE_upt_invariant)
    show "I 0 (replicate (length A) 0)" by (simp add: I_def)
  next
    fix k F assume k: "k < length A" and F: "I k F"
    from k assms have "responseBin A B k = Inr (?g k)" by (simp add: responseBin_def)
    with k F have "?body k F = Inr (F[k := ?g k])" by (simp add: I_def)
    moreover from k F have "I (Suc k) (F[k := ?g k])"
      by (auto simp: I_def nth_list_update less_Suc_eq)
    ultimately show "\<exists>F'. ?body k F = Inr F' \<and> I (Suc k) F'" by blast
  qed
  then obtain F where F: "foldE ?body [0..<length A] (replicate (length A) 0) = Inr F"
    "I (length A) F" by blast
  have "F = map ?g [0..<length A]"
    using F(2) by (auto simp: I_def intro!: nth_equalityI)
  with F(1) show ?thesis by (simp add: responseBins_def)
qed

subsection \<open>The shape of what filter returns\<close>

lemma sameShape_refl [simp]: "sameShape a a"
  by (simp add: sameShape_def)

lemma sameShape_trans: "sameShape a b \<Longrightarrow> sameShape b c \<Longrightarrow> sameShape a c"
  by (simp add: sameShape_def)

lemma copyRows_shape: "copyRows src dst start = Inr d \<Longrightarrow> sameShape d dst"
  by (auto simp: copyRows_def sameShape_def rows_def split: if_splits)

lemma copyRow_shape: "copyRow src i dst j = Inr d \<Longrightarrow> sameShape d dst"
  by (auto simp: copyRow_def sameShape_def rows_def split: if_splits)

lemma swapRows_shape: "swapRows m i j = Inr d \<Longrightarrow> sameShape d m"
  by (auto simp: swapRows_def sameShape_def rows_def split: if_splits)

lemma setColumn_shape: "setColumn m k v = Inr d \<Longrightarrow> sameShape d m"
  by (auto simp: setColumn_def sameShape_def rows_def split: if_splits)

lemma foldE_shape:
  assumes "foldE body ks m = Inr d"
    and "\<And>k t t'. body k t = Inr t' \<Longrightarrow> sameShape t' t"
  shows "sameShape d m"
  by (rule foldE_preserves[OF assms(1), where Q = "\<lambda>t. sameShape t m"])
     (auto intro: sameShape_trans assms(2))

lemma reverseRows_shape: "reverseRows m = Inr d \<Longrightarrow> sameShape d m"
  unfolding reverseRows_def by (erule foldE_shape) (rule swapRows_shape)

lemma firBlock_shape: "firBlock B padded blockSize idxStart output = Inr d \<Longrightarrow> sameShape d output"
  by (auto simp: firBlock_def Let_def bindE_eq_Inr dest: copyRows_shape)

lemma arBlock_shape: "arBlock A anSize blockSize idxStart output = Inr d \<Longrightarrow> sameShape d output"
  by (auto simp: arBlock_def Let_def bindE_eq_Inr split: if_splits
        dest!: copyRows_shape intro: sameShape_trans)

lemma filterColumn_shape: "filterColumn fft synthesis H k padded = Inr d \<Longrightarrow> sameShape d padded"
  by (auto simp: filterColumn_def bindE_eq_Inr dest: setColumn_shape)

lemma zeroMatrix_shape: "rows (zeroMatrix r c) = r" "columns (zeroMatrix r c) = c"
  by (simp_all add: zeroMatrix_def rows_def)

lemma filterTimeDomain_shape:
  assumes "filterTimeDomain f padded = Inr d"
  shows "sameShape d padded"
proof -
  from assms obtain p B o1 o2 where
    p: "(if backward f then reverseRows padded else Inr padded) = Inr p"
    and o1: "foldE (firBlock B p (min 64 (rows p)))
               (blockStarts (rows (zeroMatrix (rows p) (columns p) :: real Matrix)) (min 64 (rows p)))
               (zeroMatrix (rows p) (columns p)) = Inr o1"
    and o2: "(if length (an f) > 1
                 then bindE (bandMatrix (an f) (min 64 (rows p))) (\<lambda>A.
                        foldE (arBlock A (length (an f)) (min 64 (rows p)))
                          (blockStarts (rows o1) (min 64 (rows p))) o1)
                 else Inr o1) = Inr o2"
    and d: "(if backward f then reverseRows o2 else Inr o2) = Inr d"
    by (auto simp: filterTimeDomain_def Let_def bindE_eq_Inr)
  from p have 1: "sameShape p padded"
    by (auto split: if_splits dest: reverseRows_shape)
  from o1 have "sameShape o1 (zeroMatrix (rows p) (columns p))"
    by (rule foldE_shape) (rule firBlock_shape)
  then have 2: "sameShape o1 p" by (simp add: sameShape_def zeroMatrix_shape)
  from o2 have 3: "sameShape o2 o1"
    by (auto simp: bindE_eq_Inr split: if_splits dest!: foldE_shape[OF _ arBlock_shape])
  from d have 4: "sameShape d o2"
    by (auto split: if_splits dest: reverseRows_shape)
  from 1 2 3 4 show ?thesis by (blast intro: sameShape_trans)
qed

lemma pad_shape:
  assumes "pad x len ts ptype = Inr p"
  shows "columns p = columns x
         \<and> rows p = (if ptype = NONE then rows x + ts else 2 * len + rows x + ts)"
proof (cases "ptype = NONE")
  case True
  with assms show ?thesis
    by (auto simp: pad_def zeroMatrix_shape sameShape_def split: if_splits dest!: copyRows_shape)
next
  case False
  let ?z = "zeroMatrix (2 * len + rows x + ts) (columns x) :: 'a Matrix"
  have step: "sameShape t' t"
    if "(case copyRow x a t j of Inl e \<Rightarrow> Inl e | Inr p' \<Rightarrow> copyRow x b p' j') = Inr t'"
    for a b j j' and t t' :: "'a Matrix"
    using that by (auto split: sum.splits dest!: copyRow_shape intro: sameShape_trans)
  from assms False obtain p0 where p0: "copyRows x ?z len = Inr p0"
    by (auto simp: pad_def split: if_splits sum.splits)
  then have s0: "sameShape p0 ?z" by (rule copyRows_shape)
  from assms False p0 have "sameShape p p0"
    by (cases ptype)
       (auto simp: pad_def split: if_splits elim!: foldE_shape intro: step)
  with s0 have "sameShape p ?z" by (blast intro: sameShape_trans)
  with False show ?thesis by (simp add: sameShape_def zeroMatrix_shape)
qed

lemma trim_shape:
  assumes "trim y len ts ptype = Inr z"
    and "rows y = (if ptype = NONE then n + ts else 2 * len + n + ts)"
  shows "rows z = n \<and> columns z = columns y"
  using assms by (auto simp: trim_def rowSlice_def usub_def rows_def split: if_splits)

subsection \<open>The time-domain path of the identity filter\<close>

lemma rows_matrixOf [simp]: "rows (matrixOf r c g) = r"
  by (simp add: matrixOf_def rows_def)

lemma columns_matrixOf [simp]: "columns (matrixOf r c g) = c"
  by (simp add: matrixOf_def)

lemma entry_matrixOf [simp]: "i < r \<Longrightarrow> j < c \<Longrightarrow> entry (matrixOf r c g) i j = g i j"
  by (simp add: matrixOf_def entry_def)

lemma wellFormed_matrixOf [simp]: "wellFormed (matrixOf r c g)"
  by (simp add: matrixOf_def wellFormed_def list_all_iff)

lemma wellFormed_zeroMatrix [simp]: "wellFormed (zeroMatrix r c)"
  by (simp add: zeroMatrix_def wellFormed_def list_all_iff)

lemma entry_zeroMatrix [simp]: "i < r \<Longrightarrow> j < c \<Longrightarrow> entry (zeroMatrix r c) i j = 0"
  by (simp add: zeroMatrix_def entry_def)

lemma matrixOf_cong:
  assumes "\<And>i j. i < r \<Longrightarrow> j < c \<Longrightarrow> g i j = h i j"
  shows "matrixOf r c g = matrixOf r c h"
  using assms by (simp add: matrixOf_def)

lemma matrixOf_entry:
  assumes "wellFormed m"
  shows "matrixOf (rows m) (columns m) (entry m) = m"
proof -
  have "map (\<lambda>i. map (entry m i) [0..<columns m]) [0..<rows m] = rowData m"
  proof (rule nth_equalityI)
    show "length (map (\<lambda>i. map (entry m i) [0..<columns m]) [0..<rows m]) = length (rowData m)"
      by (simp add: rows_def)
  next
    fix i assume "i < length (map (\<lambda>i. map (entry m i) [0..<columns m]) [0..<rows m])"
    then have i: "i < length (rowData m)" by (simp add: rows_def)
    with assms have "length (rowData m ! i) = columns m"
      by (simp add: wellFormed_def list_all_length)
    then have "map (entry m i) [0..<columns m] = rowData m ! i"
      by (auto simp: entry_def intro!: nth_equalityI)
    with i show "map (\<lambda>i. map (entry m i) [0..<columns m]) [0..<rows m] ! i = rowData m ! i"
      by (simp add: rows_def)
  qed
  then show ?thesis by (simp add: matrixOf_def)
qed

lemma sum_list_unit:
  fixes g :: "nat \<Rightarrow> real"
  assumes "i < n"
  shows "(\<Sum>l\<leftarrow>[0..<n]. (if i = l then 1 else 0) * g l) = g i"
proof -
  have "(\<Sum>l\<leftarrow>[0..<n]. (if i = l then 1 else 0) * g l)
          = (\<Sum>l\<in>{0..<n}. (if i = l then 1 else 0) * g l)"
    by (simp add: interv_sum_list_conv_sum_set_nat)
  also have "\<dots> = (\<Sum>l\<in>{0..<n}. if l = i then g l else 0)"
    by (rule sum.cong) auto
  also have "\<dots> = g i" using assms by (simp add: sum.delta)
  finally show ?thesis .
qed

lemma rows_columnVector [simp]: "rows (columnVector v) = length v"
  by (simp add: columnVector_def rows_def)

lemma columns_columnVector [simp]: "columns (columnVector v) = 1"
  by (simp add: columnVector_def)

lemma entry_columnVector [simp]: "i < length v \<Longrightarrow> entry (columnVector v) i 0 = v ! i"
  by (simp add: columnVector_def entry_def)

text \<open>The band matrix of the coefficients: entry (i, j) is coefficient i - j.\<close>

lemma bandMatrix_entries:
  assumes "coefficients \<noteq> []"
  shows "\<exists>B. bandMatrix coefficients blockSize = Inr B
           \<and> rows B = length coefficients + blockSize - 1 \<and> columns B = blockSize
           \<and> (\<forall>i<rows B. \<forall>j<blockSize. entry B i j =
                 (if j \<le> i \<and> i - j < length coefficients then coefficients ! (i - j) else 0))"
proof -
  let ?L = "length coefficients"
  let ?R = "?L + blockSize - 1"
  define I where "I k B \<longleftrightarrow> rows B = ?R \<and> columns B = blockSize
     \<and> (\<forall>i<?R. \<forall>j<blockSize. entry B i j =
           (if j < k \<and> j \<le> i \<and> i - j < ?L then coefficients ! (i - j) else 0))"
    for k and B :: "real Matrix"
  have L: "0 < ?L" using assms by simp
  have "1 \<le> ?L + blockSize" using assms by (cases coefficients) simp_all
  then have u: "usub (?L + blockSize) 1 = ?R" by (simp add: usub_def)
  have "\<exists>B. foldE (\<lambda>k B. copyBlock (columnVector coefficients) B k k) [0..<blockSize]
               (zeroMatrix ?R blockSize) = Inr B \<and> I blockSize B"
  proof (rule foldE_upt_invariant)
    show "I 0 (zeroMatrix ?R blockSize)"
      by (simp add: I_def zeroMatrix_shape)
  next
    fix k and B :: "real Matrix"
    assume k: "k < blockSize" and B: "I k B"
    let ?B' = "matrixOf ?R blockSize
             (\<lambda>i j. if k \<le> i \<and> i < k + ?L \<and> k \<le> j \<and> j < k + 1
                    then entry (columnVector coefficients) (i - k) (j - k) else entry B i j)"
    have kb: "k + ?L \<le> ?R" using k assms by (cases coefficients) simp_all
    have c: "copyBlock (columnVector coefficients) B k k = Inr ?B'"
      using k B kb by (simp add: copyBlock_def I_def)
    have "entry ?B' i j = (if j < Suc k \<and> j \<le> i \<and> i - j < ?L then coefficients ! (i - j) else 0)"
      if "i < ?R" "j < blockSize" for i j
    proof (cases "j = k")
      case True
      with that k B show ?thesis by (auto simp: I_def)
    next
      case False
      with that B show ?thesis by (auto simp: I_def less_Suc_eq)
    qed
    then have "I (Suc k) ?B'"
      by (simp add: I_def)
    with c show "\<exists>B'. copyBlock (columnVector coefficients) B k k = Inr B' \<and> I (Suc k) B'"
      by blast
  qed
  then show ?thesis
    unfolding bandMatrix_def u I_def by auto
qed

text \<open>
  One round of the feed-forward loop with the identity band: the rows of the block are
  copied from the padded input to the output.
\<close>

lemma firBlock_identity:
  fixes padded out B :: "real Matrix"
  assumes wf: "wellFormed padded"
    and B: "rows B = bs" "columns B = bs"
           "\<forall>i<bs. \<forall>j<bs. entry B i j = (if i = j then 1 else 0)"
    and idx: "idx < rows padded"
    and out: "columns out = columns padded"
             "rowData out = take idx (rowData padded)
                @ replicate (rows padded - idx) (replicate (columns padded) 0)"
  shows "firBlock B padded bs idx out =
           Inr (out\<lparr>rowData := take (idx + min (rows padded - idx) bs) (rowData padded)
                  @ replicate (rows padded - (idx + min (rows padded - idx) bs))
                      (replicate (columns padded) 0)\<rparr>)"
proof -
  let ?N = "rows padded" and ?c = "columns padded" and ?P = "rowData padded"
  let ?cc = "min (?N - idx) bs"
  let ?z = "replicate ?c (0::real)"
  have lenP: "length ?P = ?N" by (simp add: rows_def)
  have rows_out: "rows out = ?N" using idx out(2) lenP by (simp add: rows_def[of out])
  have u: "usub (rows out) idx = ?N - idx" using idx rows_out by (simp add: usub_def)
  let ?Bs = "matrixOf ?cc ?cc (\<lambda>i j. entry B (0 + i) (0 + j))"
  let ?Ps = "\<lparr>columns = ?c, rowData = take ?cc (drop idx ?P)\<rparr>"
  have s1: "slice B 0 0 ?cc ?cc = Inr ?Bs" using B(1,2) by (simp add: slice_def)
  have s2: "rowSlice padded idx ?cc = Inr ?Ps" using idx by (simp add: rowSlice_def)
  have "take ?cc (drop idx (rowData out)) = replicate ?cc ?z"
    using out(2) idx lenP by (simp add: min_def)
  then have s3: "rowSlice out idx ?cc = Inr (zeroMatrix ?cc ?c)"
    using idx rows_out out(1) by (simp add: rowSlice_def zeroMatrix_def)
  have rowsPs: "rows ?Ps = ?cc" using idx lenP by (simp add: rows_def[of ?Ps])
  have wfPs: "wellFormed ?Ps"
    using wf by (auto simp: wellFormed_def list_all_iff dest: in_set_takeD in_set_dropD)
  have "matrixOf ?cc ?c
          (\<lambda>i j. entry (zeroMatrix ?cc ?c) i j
                 + 1 * (\<Sum>l\<leftarrow>[0..<?cc]. entry ?Bs i l * entry ?Ps l j))
        = matrixOf ?cc ?c (entry ?Ps)"
  proof (rule matrixOf_cong)
    fix i j assume i: "i < ?cc" and j: "j < ?c"
    have "(\<Sum>l\<leftarrow>[0..<?cc]. entry ?Bs i l * entry ?Ps l j)
            = (\<Sum>l\<leftarrow>[0..<?cc]. (if i = l then 1 else 0) * entry ?Ps l j)"
      using i B(3) by (intro arg_cong[where f = sum_list] map_cong) auto
    also have "\<dots> = entry ?Ps i j" using i by (rule sum_list_unit)
    finally show "entry (zeroMatrix ?cc ?c) i j
                 + 1 * (\<Sum>l\<leftarrow>[0..<?cc]. entry ?Bs i l * entry ?Ps l j) = entry ?Ps i j"
      using i j by simp
  qed
  also have "\<dots> = ?Ps" using matrixOf_entry[OF wfPs] rowsPs by simp
  finally have s4: "matMult 1 ?Bs ?Ps (zeroMatrix ?cc ?c) = Inr ?Ps"
    using rowsPs by (simp add: matMult_def zeroMatrix_shape)
  have "take idx (rowData out) @ rowData ?Ps @ drop (idx + ?cc) (rowData out)
          = take (idx + ?cc) ?P @ replicate (?N - (idx + ?cc)) ?z"
    using out(2) idx lenP by (simp add: take_add min_def)
  then have s5: "copyRows ?Ps out idx
          = Inr (out\<lparr>rowData := take (idx + ?cc) ?P @ replicate (?N - (idx + ?cc)) ?z\<rparr>)"
    using rowsPs rows_out out(1) idx by (simp add: copyRows_def)
  show ?thesis
    unfolding firBlock_def Let_def u B(1)
    by (simp only: s1 s2 s3 s4 s5 bindE_Inr min.idem)
qed

lemma block_start_inside:
  fixes k n blockSize :: nat
  assumes "k < (n + blockSize - 1) div blockSize"
  shows "k * blockSize < n"
proof -
  have pos: "0 < blockSize" using assms by (cases "blockSize = 0") auto
  from assms have "Suc k \<le> (n + blockSize - 1) div blockSize" by simp
  with pos have "Suc k * blockSize \<le> n + blockSize - 1"
    by (simp only: less_eq_div_iff_mult_less_eq)
  with pos show ?thesis by simp
qed

lemma blocks_cover:
  fixes n blockSize :: nat
  assumes "0 < blockSize"
  shows "n \<le> (n + blockSize - 1) div blockSize * blockSize"
proof -
  from assms
  have "n + blockSize - 1 < blockSize + (n + blockSize - 1) div blockSize * blockSize"
    by (rule dividend_less_div_times)
  with assms show ?thesis by simp
qed

lemma firLoop_identity:
  fixes padded B :: "real Matrix"
  assumes wf: "wellFormed padded"
    and bs: "bs = min 64 (rows padded)"
    and B: "rows B = bs" "columns B = bs"
           "\<forall>i<bs. \<forall>j<bs. entry B i j = (if i = j then 1 else 0)"
  shows "foldE (firBlock B padded bs) (blockStarts (rows padded) bs)
           (zeroMatrix (rows padded) (columns padded)) = Inr padded"
proof -
  let ?N = "rows padded" and ?c = "columns padded" and ?P = "rowData padded"
  let ?z = "replicate ?c (0::real)"
  let ?nb = "(?N + bs - 1) div bs"
  have lenP: "length ?P = ?N" by (simp add: rows_def)
  define I where "I k out \<longleftrightarrow> columns out = ?c
      \<and> rowData out = take (min (k * bs) ?N) ?P @ replicate (?N - min (k * bs) ?N) ?z"
    for k and out :: "real Matrix"
  have "\<exists>out. foldE (\<lambda>j. firBlock B padded bs (j * bs)) [0..<?nb] (zeroMatrix ?N ?c) = Inr out
          \<and> I ?nb out"
  proof (rule foldE_upt_invariant)
    show "I 0 (zeroMatrix ?N ?c)" by (simp add: I_def zeroMatrix_def)
  next
    fix k and out :: "real Matrix"
    assume k: "k < ?nb" and out: "I k out"
    from k have idx: "k * bs < ?N" by (rule block_start_inside)
    then have m: "min (k * bs) ?N = k * bs" by simp
    let ?out' = "out\<lparr>rowData := take (k * bs + min (?N - k * bs) bs) ?P
                  @ replicate (?N - (k * bs + min (?N - k * bs) bs)) ?z\<rparr>"
    have step: "firBlock B padded bs (k * bs) out = Inr ?out'"
      using out by (intro firBlock_identity[OF wf B idx]) (simp_all add: I_def m)
    have "min (Suc k * bs) ?N = k * bs + min (?N - k * bs) bs"
      using idx by (simp add: min_def) arith
    with out have "I (Suc k) ?out'" by (simp add: I_def)
    with step show "\<exists>t'. firBlock B padded bs (k * bs) out = Inr t' \<and> I (Suc k) t'" by blast
  qed
  then obtain out where out: "foldE (\<lambda>j. firBlock B padded bs (j * bs)) [0..<?nb]
       (zeroMatrix ?N ?c) = Inr out" "I ?nb out" by blast
  have "min (?nb * bs) ?N = ?N"
  proof (cases "?N = 0")
    case True
    then show ?thesis by simp
  next
    case False
    with bs have "0 < bs" by simp
    from blocks_cover[OF this, of ?N] show ?thesis by simp
  qed
  with out(2) lenP have "columns out = ?c" "rowData out = ?P" by (simp_all add: I_def)
  then have "out = padded" by simp
  with out(1) show ?thesis by (simp add: blockStarts_def foldE_map)
qed

lemma identity_band:
  "\<exists>B. bandMatrix [1] bs = Inr B \<and> rows B = bs \<and> columns B = bs
       \<and> (\<forall>i<bs. \<forall>j<bs. entry B i j = (if i = j then 1 else 0))"
proof -
  from bandMatrix_entries[of "[1]" bs]
  obtain B where B: "bandMatrix [1] bs = Inr B" "rows B = bs" "columns B = bs"
    "\<forall>i<bs. \<forall>j<bs. entry B i j = (if j \<le> i \<and> i - j < 1 then [1] ! (i - j) else 0)"
    by auto
  have "\<forall>i<bs. \<forall>j<bs. entry B i j = (if i = j then 1 else 0)"
    using B(4) by auto
  with B(1-3) show ?thesis by blast
qed

lemma filterTimeDomain_identity:
  assumes "wellFormed padded"
  shows "filterTimeDomain (identityFilter ptype) padded = Inr padded"
proof -
  obtain B where B: "bandMatrix [1] (min 64 (rows padded)) = Inr B"
    "rows B = min 64 (rows padded)" "columns B = min 64 (rows padded)"
    "\<forall>i<min 64 (rows padded). \<forall>j<min 64 (rows padded). entry B i j = (if i = j then 1 else 0)"
    using identity_band by blast
  from firLoop_identity[OF assms refl B(2-4)] B(1)
  show ?thesis
    by (simp add: filterTimeDomain_def identityFilter_def Let_def zeroMatrix_shape)
qed

lemma warmup_identity: "warmup (identityFilter ptype) = 3"
  by (simp add: warmup_def identityFilter_def usub_def)

lemma identityFilter_fields:
  "bnStartIndex (identityFilter ptype) = 0"
  "padType (identityFilter ptype) = ptype"
  "\<not> inFrequencyDomain (identityFilter ptype)"
  by (simp_all add: identityFilter_def)

lemma identity_filter_result:
  assumes "wellFormed x" and "3 \<le> rows x" and "ptype = SYMMETRIC \<longrightarrow> 4 \<le> rows x"
  shows "filter_arma fft synthesis (identityFilter ptype) x = Inr x"
proof -
  have f: "bnStartIndex (identityFilter ptype) = 0" "padType (identityFilter ptype) = ptype"
    "\<not> inFrequencyDomain (identityFilter ptype)"
    by (simp_all add: identityFilter_def)
  have "\<exists>p. pad x 3 0 ptype = Inr p \<and> wellFormed p \<and> trim p 3 0 ptype = Inr x"
  proof (cases "ptype = NONE")
    case True
    with assms(1) show ?thesis by (simp add: pad_def trim_def)
  next
    case False
    from assms(2,3) have e: "enoughRows ptype 3 x"
      by (cases ptype) (simp_all add: enoughRows_def)
    from pad_layout[OF False e, of 0] obtain p where p: "pad x 3 0 ptype = Inr p"
      "paddedLayout x 3 0 p" by blast
    from padThenTrim_rows[OF False e, of 0] p(1) have "trim p 3 0 ptype = Inr x"
      by (auto simp: padThenTrim_def)
    with p assms(1) show ?thesis by (auto simp: paddedLayout_def)
  qed
  then obtain p where p: "pad x 3 0 ptype = Inr p" "wellFormed p" "trim p 3 0 ptype = Inr x"
    by blast
  from assms(2) p filterTimeDomain_identity[OF p(2), of ptype]
  show ?thesis by (simp add: filter_arma_def warmup_identity f)
qed

section \<open>The claims\<close>

subsection \<open>pad and trim\<close>

text \<open>
  C1, as amended. For every padding policy other than \<open>NONE\<close>, every padding length
  and every time shift whose padded row count \<open>2 \<cdot> len + rows x + timeShift\<close> is below
  \<open>2 ^ 64\<close>, and every input with enough rows for the policy, trimming the padded
  input returns a matrix of the shape of the input whose row \<open>i\<close> is row
  \<open>i + timeShift\<close> of the input, as long as that row exists; for \<open>timeShift = 0\<close>
  it is the input itself. (\<open>pad\<close> puts the input at row \<open>len\<close>, \<open>trim\<close> reads
  from row \<open>len + timeShift\<close>.)
\<close>

theorem trim_pad_round_trip:
  assumes "ptype \<noteq> NONE" and "enoughRows ptype len x"
    and "2 * len + rows x + timeShift < 2 ^ 64"
  shows "\<exists>y. padThenTrim x len timeShift ptype = Inr y
           \<and> rows y = rows x \<and> columns y = columns x
           \<and> (\<forall>i. i + timeShift < rows x \<longrightarrow> rowData y ! i = rowData x ! (i + timeShift))
           \<and> (timeShift = 0 \<longrightarrow> y = x)"
  using assms(1,2) by (rule padThenTrim_rows)

text \<open>
  The witness: Symmetric padding of length 2 on three rows, without a time shift and
  with a time shift of 1.
\<close>

theorem trim_pad_round_trip_witness:
  "SYMMETRIC \<noteq> NONE
   \<and> enoughRows SYMMETRIC 2 \<lparr>columns = 1, rowData = [[1], [2], [3::int]]\<rparr>
   \<and> 2 * 2 + rows \<lparr>columns = 1, rowData = [[1], [2], [3::int]]\<rparr> + 1 < 2 ^ 64
   \<and> padThenTrim \<lparr>columns = 1, rowData = [[1], [2], [3::int]]\<rparr> 2 0 SYMMETRIC
       = Inr \<lparr>columns = 1, rowData = [[1], [2], [3]]\<rparr>
   \<and> (\<exists>y. padThenTrim \<lparr>columns = 1, rowData = [[1], [2], [3::int]]\<rparr> 2 1 SYMMETRIC = Inr y
           \<and> rows y = 3 \<and> columns y = 1
           \<and> rowData y ! 0 = [2] \<and> rowData y ! 1 = [3])"
proof -
  let ?x = "\<lparr>columns = 1, rowData = [[1], [2], [3::int]]\<rparr>"
  have h1: "SYMMETRIC \<noteq> NONE" by simp
  have h2: "enoughRows SYMMETRIC 2 ?x"
    by (simp add: enoughRows_def rows_def)
  have r: "rows ?x = 3" by (simp add: rows_def)
  have b0: "2 * 2 + rows ?x + 0 < 2 ^ 64" by (simp add: rows_def)
  have b1: "2 * 2 + rows ?x + 1 < 2 ^ 64" by (simp add: rows_def)
  from trim_pad_round_trip[OF h1 h2 b0]
  have a: "padThenTrim ?x 2 0 SYMMETRIC = Inr ?x" by auto
  from trim_pad_round_trip[OF h1 h2 b1] r
  obtain y where y: "padThenTrim ?x 2 1 SYMMETRIC = Inr y" "rows y = 3" "columns y = 1"
    "\<forall>i. i + 1 < 3 \<longrightarrow> rowData y ! i = rowData ?x ! (i + 1)"
    by auto
  from y(4) have "rowData y ! 0 = [2]" "rowData y ! 1 = [3]" by simp_all
  with h1 h2 b1 a y(1-3) show ?thesis by blast
qed

text \<open>
  C1 as stated fails for a time shift: with Zero padding of length 1 and time shift 1
  (a padded row count of 5), the rows \<open>[1], [2]\<close> come back as \<open>[2], [0]\<close>.
\<close>

theorem trim_pad_round_trip_counterexample:
  "ZERO \<noteq> NONE
   \<and> enoughRows ZERO 1 \<lparr>columns = 1, rowData = [[1], [2::int]]\<rparr>
   \<and> padThenTrim \<lparr>columns = 1, rowData = [[1], [2::int]]\<rparr> 1 1 ZERO
       = Inr \<lparr>columns = 1, rowData = [[2], [0]]\<rparr>
   \<and> padThenTrim \<lparr>columns = 1, rowData = [[1], [2::int]]\<rparr> 1 1 ZERO
       \<noteq> Inr \<lparr>columns = 1, rowData = [[1], [2]]\<rparr>"
  by (simp add: enoughRows_def padThenTrim_def pad_def trim_def copyRows_def rowSlice_def
        zeroMatrix_def rows_def usub_def)

text \<open>
  C7. \<open>pad\<close> with a policy other than \<open>NONE\<close> raises ZeroLengthInput on an input
  without rows. On an input with rows, and for a padded row count
  \<open>2 \<cdot> len + rows input + timeShift\<close> below \<open>2 ^ 64\<close>, Periodic padding raises
  InvalidPadding exactly when \<open>rows input < len\<close>, Symmetric padding exactly when
  \<open>rows input < len + 1\<close>, and Zero and Constant padding raise nothing: they return.
\<close>

theorem pad_errors:
  "(ptype \<noteq> NONE \<and> rows x = 0 \<longrightarrow> pad x len timeShift ptype = Inl ZeroLengthInput)
   \<and> (0 < rows x \<and> 2 * len + rows x + timeShift < 2 ^ 64 \<longrightarrow>
        (pad x len timeShift PERIODIC = Inl InvalidPadding \<longleftrightarrow> rows x < len)
      \<and> (pad x len timeShift SYMMETRIC = Inl InvalidPadding \<longleftrightarrow> rows x < len + 1)
      \<and> (\<exists>p. pad x len timeShift ZERO = Inr p)
      \<and> (\<exists>p. pad x len timeShift CONSTANT = Inr p))"
proof (intro conjI impI)
  assume "ptype \<noteq> NONE \<and> rows x = 0"
  then show "pad x len timeShift ptype = Inl ZeroLengthInput" by (simp add: pad_def)
next
  assume a: "0 < rows x \<and> 2 * len + rows x + timeShift < 2 ^ 64"
  obtain p0 where p0:
    "copyRows x (zeroMatrix (2 * len + rows x + timeShift) (columns x)) len = Inr p0"
    using copyRows_zero_layout by blast
  show "pad x len timeShift PERIODIC = Inl InvalidPadding \<longleftrightarrow> rows x < len"
  proof (cases "rows x < len")
    case True
    with a p0 show ?thesis by (simp add: pad_def)
  next
    case False
    with a have "enoughRows PERIODIC len x" by (simp add: enoughRows_def)
    from pad_layout[OF _ this, of timeShift] False show ?thesis by auto
  qed
next
  assume a: "0 < rows x \<and> 2 * len + rows x + timeShift < 2 ^ 64"
  obtain p0 where p0:
    "copyRows x (zeroMatrix (2 * len + rows x + timeShift) (columns x)) len = Inr p0"
    using copyRows_zero_layout by blast
  show "pad x len timeShift SYMMETRIC = Inl InvalidPadding \<longleftrightarrow> rows x < len + 1"
  proof (cases "rows x < len + 1")
    case True
    with a p0 show ?thesis by (simp add: pad_def)
  next
    case False
    then have "enoughRows SYMMETRIC len x" by (simp add: enoughRows_def)
    from pad_layout[OF _ this, of timeShift] False show ?thesis by auto
  qed
next
  assume "0 < rows x \<and> 2 * len + rows x + timeShift < 2 ^ 64"
  then have "enoughRows ZERO len x" by (simp add: enoughRows_def)
  from pad_layout[OF _ this, of timeShift] show "\<exists>p. pad x len timeShift ZERO = Inr p" by auto
next
  assume "0 < rows x \<and> 2 * len + rows x + timeShift < 2 ^ 64"
  then have "enoughRows CONSTANT len x" by (simp add: enoughRows_def)
  from pad_layout[OF _ this, of timeShift] show "\<exists>p. pad x len timeShift CONSTANT = Inr p" by auto
qed

text \<open>
  The witness: an input without rows under Periodic padding, and an input of one row:
  too short for Periodic padding of length 2 and for Symmetric padding of length 1,
  long enough for Periodic padding of length 1.
\<close>

theorem pad_errors_witness:
  "PERIODIC \<noteq> NONE \<and> rows \<lparr>columns = 1, rowData = ([] :: int list list)\<rparr> = 0
   \<and> pad \<lparr>columns = 1, rowData = ([] :: int list list)\<rparr> 2 0 PERIODIC = Inl ZeroLengthInput
   \<and> 0 < rows \<lparr>columns = 1, rowData = [[5::int]]\<rparr>
   \<and> 2 * 2 + rows \<lparr>columns = 1, rowData = [[5::int]]\<rparr> + 0 < 2 ^ 64
   \<and> pad \<lparr>columns = 1, rowData = [[5::int]]\<rparr> 2 0 PERIODIC = Inl InvalidPadding
   \<and> pad \<lparr>columns = 1, rowData = [[5::int]]\<rparr> 1 0 PERIODIC \<noteq> Inl InvalidPadding
   \<and> pad \<lparr>columns = 1, rowData = [[5::int]]\<rparr> 1 0 SYMMETRIC = Inl InvalidPadding
   \<and> (\<exists>p. pad \<lparr>columns = 1, rowData = [[5::int]]\<rparr> 2 0 ZERO = Inr p)
   \<and> (\<exists>p. pad \<lparr>columns = 1, rowData = [[5::int]]\<rparr> 2 0 CONSTANT = Inr p)"
proof -
  let ?e = "\<lparr>columns = 1, rowData = ([] :: int list list)\<rparr>"
  let ?x = "\<lparr>columns = 1, rowData = [[5::int]]\<rparr>"
  have e: "rows ?e = 0" by (simp add: rows_def)
  have r: "rows ?x = 1" by (simp add: rows_def)
  have b2: "0 < rows ?x \<and> 2 * 2 + rows ?x + 0 < 2 ^ 64" by (simp add: rows_def)
  have b1: "0 < rows ?x \<and> 2 * 1 + rows ?x + 0 < 2 ^ 64" by (simp add: rows_def)
  from pad_errors[of PERIODIC ?e 2 0] e
  have 1: "pad ?e 2 0 PERIODIC = Inl ZeroLengthInput" by simp
  from pad_errors[of PERIODIC ?x 2 0] b2 r
  have 2: "pad ?x 2 0 PERIODIC = Inl InvalidPadding"
    and 3: "\<exists>p. pad ?x 2 0 ZERO = Inr p"
    and 4: "\<exists>p. pad ?x 2 0 CONSTANT = Inr p"
    by simp_all
  from pad_errors[of PERIODIC ?x 1 0] b1 r
  have 5: "pad ?x 1 0 SYMMETRIC = Inl InvalidPadding"
    and 6: "pad ?x 1 0 PERIODIC \<noteq> Inl InvalidPadding"
    by simp_all
  from e b2 1 2 3 4 5 6 show ?thesis by simp
qed

subsection \<open>warmup\<close>

text \<open>
  C2, as amended. For a filter with \<open>bn\<close> of length 5, \<open>bnStartIndex = 2\<close> and \<open>an\<close>
  of length 1, \<open>warmup\<close> returns 3: the third operand of the maximum is
  \<open>3 \<cdot> length an = 3\<close>.
\<close>

theorem warmup_example:
  assumes "length (bn f) = 5" and "bnStartIndex f = 2" and "length (an f) = 1"
  shows "warmup f = 3"
  using assms by (simp add: warmup_def usub_def)

theorem warmup_example_witness:
  "length (bn \<lparr>bn = [1, 2, 3, 2, 1], an = [1], bnStartIndex = 2, backward = False,
              inFrequencyDomain = False, padType = ZERO\<rparr>) = 5
   \<and> bnStartIndex \<lparr>bn = [1, 2, 3, 2, 1], an = [1], bnStartIndex = 2, backward = False,
              inFrequencyDomain = False, padType = ZERO\<rparr> = 2
   \<and> length (an \<lparr>bn = [1, 2, 3, 2, 1], an = [1], bnStartIndex = 2, backward = False,
              inFrequencyDomain = False, padType = ZERO\<rparr>) = 1
   \<and> warmup \<lparr>bn = [1, 2, 3, 2, 1], an = [1], bnStartIndex = 2, backward = False,
              inFrequencyDomain = False, padType = ZERO\<rparr> = 3"
  using warmup_example[of "\<lparr>bn = [1, 2, 3, 2, 1], an = [1], bnStartIndex = 2, backward = False,
              inFrequencyDomain = False, padType = ZERO\<rparr>"]
  by simp

text \<open>C2 as stated fails: the value is not 2.\<close>

theorem warmup_example_counterexample:
  "length (bn \<lparr>bn = [1, 2, 3, 2, 1], an = [1], bnStartIndex = 2, backward = False,
              inFrequencyDomain = False, padType = ZERO\<rparr>) = 5
   \<and> bnStartIndex \<lparr>bn = [1, 2, 3, 2, 1], an = [1], bnStartIndex = 2, backward = False,
              inFrequencyDomain = False, padType = ZERO\<rparr> = 2
   \<and> length (an \<lparr>bn = [1, 2, 3, 2, 1], an = [1], bnStartIndex = 2, backward = False,
              inFrequencyDomain = False, padType = ZERO\<rparr>) = 1
   \<and> warmup \<lparr>bn = [1, 2, 3, 2, 1], an = [1], bnStartIndex = 2, backward = False,
              inFrequencyDomain = False, padType = ZERO\<rparr> \<noteq> 2"
  by (simp add: warmup_def usub_def)

text \<open>
  C3. For non-empty \<open>bn\<close> and \<open>an\<close> and \<open>bnStartIndex < length bn\<close>, \<open>warmup\<close>
  returns \<open>max (length bn - bnStartIndex - 1, bnStartIndex, 3 \<cdot> length an)\<close>.
\<close>

theorem warmup_formula:
  assumes "bn f \<noteq> []" and "an f \<noteq> []" and "bnStartIndex f < length (bn f)"
  shows "warmup f = max (max (length (bn f) - bnStartIndex f - 1) (bnStartIndex f))
                        (3 * length (an f))"
proof -
  from assms(3) have "1 \<le> length (bn f) - bnStartIndex f" by simp
  then have "usub (usub (length (bn f)) (bnStartIndex f)) 1 = length (bn f) - bnStartIndex f - 1"
    using assms(3) by (simp add: usub_def)
  then show ?thesis by (simp add: warmup_def)
qed

theorem warmup_formula_witness:
  "bn \<lparr>bn = [1/3, 1/3, 1/3], an = [1, -1/2], bnStartIndex = 1, backward = False,
       inFrequencyDomain = False, padType = CONSTANT\<rparr> \<noteq> []
   \<and> an \<lparr>bn = [1/3, 1/3, 1/3], an = [1, -1/2], bnStartIndex = 1, backward = False,
       inFrequencyDomain = False, padType = CONSTANT\<rparr> \<noteq> []
   \<and> bnStartIndex \<lparr>bn = [1/3, 1/3, 1/3], an = [1, -1/2], bnStartIndex = 1, backward = False,
       inFrequencyDomain = False, padType = CONSTANT\<rparr>
       < length (bn \<lparr>bn = [1/3, 1/3, 1/3], an = [1, -1/2], bnStartIndex = 1, backward = False,
       inFrequencyDomain = False, padType = CONSTANT\<rparr>)
   \<and> warmup \<lparr>bn = [1/3, 1/3, 1/3], an = [1, -1/2], bnStartIndex = 1, backward = False,
       inFrequencyDomain = False, padType = CONSTANT\<rparr> = 6"
  using warmup_formula[of "\<lparr>bn = [1/3, 1/3, 1/3], an = [1, -1/2], bnStartIndex = 1,
       backward = False, inFrequencyDomain = False, padType = CONSTANT\<rparr>"]
  by simp

subsection \<open>filter\<close>

text \<open>
  C8. On an input with fewer rows than \<open>warmup\<close>, \<open>filter\<close> raises
  InsufficientInputLength, whatever padding and filtering would have done.
\<close>

theorem filter_rejects_short_input:
  assumes "rows input < warmup f"
  shows "filter_arma fft synthesis f input = Inl InsufficientInputLength"
  using assms by (simp add: filter_arma_def)

theorem filter_rejects_short_input_witness:
  "rows \<lparr>columns = 1, rowData = ([] :: real list list)\<rparr> < warmup (identityFilter ZERO)
   \<and> filter_arma (\<lambda>v. []) (\<lambda>F even. []) (identityFilter ZERO)
        \<lparr>columns = 1, rowData = ([] :: real list list)\<rparr> = Inl InsufficientInputLength
   \<and> pad \<lparr>columns = 1, rowData = ([] :: real list list)\<rparr> (warmup (identityFilter ZERO))
        (bnStartIndex (identityFilter ZERO)) (padType (identityFilter ZERO)) = Inl ZeroLengthInput"
proof -
  have h: "rows \<lparr>columns = 1, rowData = ([] :: real list list)\<rparr> < warmup (identityFilter ZERO)"
    by (simp add: rows_def warmup_def identityFilter_def usub_def)
  have p: "pad \<lparr>columns = 1, rowData = ([] :: real list list)\<rparr> (warmup (identityFilter ZERO))
        (bnStartIndex (identityFilter ZERO)) (padType (identityFilter ZERO)) = Inl ZeroLengthInput"
    by (simp add: pad_def rows_def identityFilter_def)
  from filter_rejects_short_input[OF h, of "\<lambda>v. []" "\<lambda>F even. []"] h p show ?thesis by simp
qed

text \<open>
  C10. Whenever \<open>filter\<close> returns, in the time domain or in the frequency domain,
  forward or backward, under every padding policy and every \<open>bnStartIndex\<close>, the
  output has the rows and the columns of the input.
\<close>

theorem filter_keeps_shape:
  assumes "filter_arma fft synthesis f input = Inr output"
  shows "rows output = rows input \<and> columns output = columns input"
proof -
  from assms obtain padded middle where
    p: "pad input (warmup f) (bnStartIndex f) (padType f) = Inr padded"
    and m: "sameShape middle padded"
    and t: "trim middle (warmup f) (bnStartIndex f) (padType f) = Inr output"
    by (auto simp: filter_arma_def bindE_eq_Inr split: if_splits
          dest: filterTimeDomain_shape foldE_shape[OF _ filterColumn_shape])
  from pad_shape[OF p] m
  have "columns middle = columns input"
    "rows middle = (if padType f = NONE then rows input + bnStartIndex f
                    else 2 * warmup f + rows input + bnStartIndex f)"
    by (simp_all add: sameShape_def)
  with trim_shape[OF t, of "rows input"] show ?thesis by simp
qed

text \<open>
  The witness: a two-tap sum with \<open>bnStartIndex = 1\<close> and no padding, on seven rows.
\<close>

theorem filter_keeps_shape_witness:
  "filter_arma (\<lambda>v. []) (\<lambda>F even. [])
     \<lparr>bn = [1, 1], an = [1], bnStartIndex = 1, backward = False,
       inFrequencyDomain = False, padType = NONE\<rparr>
     \<lparr>columns = 1, rowData = [[1], [2], [3], [4], [5], [6], [7]]\<rparr>
     = Inr \<lparr>columns = 1, rowData = [[3], [5], [7], [9], [11], [13], [7]]\<rparr>
   \<and> rows \<lparr>columns = 1, rowData = [[3], [5], [7], [9], [11], [13], [7::real]]\<rparr>
       = rows \<lparr>columns = 1, rowData = [[1], [2], [3], [4], [5], [6], [7::real]]\<rparr>
   \<and> columns \<lparr>columns = 1, rowData = [[3], [5], [7], [9], [11], [13], [7::real]]\<rparr>
       = columns \<lparr>columns = 1, rowData = [[1], [2], [3], [4], [5], [6], [7::real]]\<rparr>"
proof -
  have h: "filter_arma (\<lambda>v. []) (\<lambda>F even. [])
     \<lparr>bn = [1, 1], an = [1], bnStartIndex = 1, backward = False,
       inFrequencyDomain = False, padType = NONE\<rparr>
     \<lparr>columns = 1, rowData = [[1], [2], [3], [4], [5], [6], [7]]\<rparr>
     = Inr \<lparr>columns = 1, rowData = [[3], [5], [7], [9], [11], [13], [7]]\<rparr>"
    by code_simp
  from filter_keeps_shape[OF h] h show ?thesis by simp
qed

text \<open>
  C4, as amended. The identity filter (\<open>bn = [1]\<close>, \<open>an = [1]\<close>, \<open>bnStartIndex = 0\<close>,
  forward, time domain) has \<open>warmup = 3\<close>. Under every padding policy it returns its
  input unchanged on every input of at least 3 rows, at least 4 rows under Symmetric
  padding. An input of fewer than 3 rows is rejected with InsufficientInputLength, an
  input of 3 rows under Symmetric padding with InvalidPadding.
\<close>

theorem identity_filter_unchanged:
  assumes "wellFormed x"
  shows "(3 \<le> rows x \<and> (ptype = SYMMETRIC \<longrightarrow> 4 \<le> rows x)
            \<longrightarrow> filter_arma fft synthesis (identityFilter ptype) x = Inr x)
       \<and> (rows x < 3
            \<longrightarrow> filter_arma fft synthesis (identityFilter ptype) x = Inl InsufficientInputLength)
       \<and> (rows x = 3 \<and> ptype = SYMMETRIC
            \<longrightarrow> filter_arma fft synthesis (identityFilter ptype) x = Inl InvalidPadding)"
proof (intro conjI impI)
  assume "3 \<le> rows x \<and> (ptype = SYMMETRIC \<longrightarrow> 4 \<le> rows x)"
  with assms show "filter_arma fft synthesis (identityFilter ptype) x = Inr x"
    by (intro identity_filter_result) simp_all
next
  assume "rows x < 3"
  then show "filter_arma fft synthesis (identityFilter ptype) x = Inl InsufficientInputLength"
    by (simp add: filter_arma_def warmup_identity)
next
  assume a: "rows x = 3 \<and> ptype = SYMMETRIC"
  obtain p0 where "copyRows x (zeroMatrix (2 * 3 + rows x + 0) (columns x)) 3 = Inr p0"
    using copyRows_zero_layout by blast
  with a have "pad x 3 0 SYMMETRIC = Inl InvalidPadding" by (simp add: pad_def)
  with a show "filter_arma fft synthesis (identityFilter ptype) x = Inl InvalidPadding"
    by (simp add: filter_arma_def warmup_identity identityFilter_fields)
qed

theorem identity_filter_unchanged_witness:
  "wellFormed \<lparr>columns = 2, rowData = [[1, 2], [3, 4], [5, 6], [7, 8::real]]\<rparr>
   \<and> filter_arma (\<lambda>v. []) (\<lambda>F even. []) (identityFilter SYMMETRIC)
        \<lparr>columns = 2, rowData = [[1, 2], [3, 4], [5, 6], [7, 8]]\<rparr>
       = Inr \<lparr>columns = 2, rowData = [[1, 2], [3, 4], [5, 6], [7, 8]]\<rparr>
   \<and> filter_arma (\<lambda>v. []) (\<lambda>F even. []) (identityFilter NONE)
        \<lparr>columns = 2, rowData = [[1, 2], [3, 4], [5, 6], [7, 8]]\<rparr>
       = Inr \<lparr>columns = 2, rowData = [[1, 2], [3, 4], [5, 6], [7, 8]]\<rparr>"
proof -
  have w: "wellFormed \<lparr>columns = 2, rowData = [[1, 2], [3, 4], [5, 6], [7, 8::real]]\<rparr>"
    by (simp add: wellFormed_def)
  have r: "rows \<lparr>columns = 2, rowData = [[1, 2], [3, 4], [5, 6], [7, 8::real]]\<rparr> = 4"
    by (simp add: rows_def)
  from identity_filter_unchanged[OF w, of SYMMETRIC "\<lambda>v. []" "\<lambda>F even. []"]
       identity_filter_unchanged[OF w, of NONE "\<lambda>v. []" "\<lambda>F even. []"] w r
  show ?thesis by simp
qed

text \<open>
  C4 as stated fails on a short input: one row is fewer than \<open>warmup = 3\<close>, and the
  identity filter raises InsufficientInputLength instead of returning the input.
\<close>

theorem identity_filter_unchanged_counterexample:
  "wellFormed \<lparr>columns = 1, rowData = [[5::real]]\<rparr>
   \<and> filter_arma (\<lambda>v. []) (\<lambda>F even. []) (identityFilter ZERO)
        \<lparr>columns = 1, rowData = [[5]]\<rparr> = Inl InsufficientInputLength
   \<and> filter_arma (\<lambda>v. []) (\<lambda>F even. []) (identityFilter ZERO)
        \<lparr>columns = 1, rowData = [[5]]\<rparr> \<noteq> Inr \<lparr>columns = 1, rowData = [[5]]\<rparr>"
  by (simp add: wellFormed_def filter_arma_def warmup_def identityFilter_def usub_def rows_def)

subsection \<open>frequencyResponse\<close>

text \<open>
  C5. Once the padded coefficient vectors \<open>aPad\<close>, \<open>bPad\<close> are built and the two
  spectra \<open>A = fft aPad\<close>, \<open>B = fft bPad\<close> have a bin of \<open>B\<close> for every bin of
  \<open>A\<close>, \<open>frequencyResponse\<close> returns one value per bin of \<open>A\<close>: exactly 1 at every
  bin with \<open>|A(k)| = 0\<close>, and \<open>B(k) / A(k)\<close> at every other bin. No error is raised.
\<close>

theorem frequencyResponse_bins:
  assumes "paddedCoefficients f len = Inr (aPad, bPad)"
    and "length (fft aPad) \<le> length (fft bPad)"
  shows "\<exists>F. frequencyResponse_arma fft f len = Inr F
           \<and> length F = length (fft aPad)
           \<and> (\<forall>k<length F.
                 (cmod (fft aPad ! k) = 0 \<longrightarrow> F ! k = 1)
               \<and> (cmod (fft aPad ! k) \<noteq> 0 \<longrightarrow> F ! k = fft bPad ! k / fft aPad ! k))"
  using assms by (simp add: frequencyResponse_arma_def responseBins_value)

text \<open>
  The witness: \<open>bn = [1, 1]\<close>, \<open>an = [1, -1]\<close> at length 2, with the discrete Fourier
  transform of two samples, \<open>[v\<^sub>0 + v\<^sub>1, v\<^sub>0 - v\<^sub>1]\<close>. The feedback spectrum is
  \<open>[0, 2]\<close>: the response is 1 at bin 0 and \<open>0 / 2\<close> at bin 1.
\<close>

theorem frequencyResponse_bins_witness:
  "paddedCoefficients \<lparr>bn = [1, 1], an = [1, -1], bnStartIndex = 0, backward = False,
         inFrequencyDomain = False, padType = NONE\<rparr> 2 = Inr ([1, -1], [1, 1])
   \<and> length ((\<lambda>v. [complex_of_real (v ! 0 + v ! 1), complex_of_real (v ! 0 - v ! 1)]) [1, -1])
       \<le> length ((\<lambda>v. [complex_of_real (v ! 0 + v ! 1), complex_of_real (v ! 0 - v ! 1)]) [1, 1])
   \<and> (\<exists>F. frequencyResponse_arma
             (\<lambda>v. [complex_of_real (v ! 0 + v ! 1), complex_of_real (v ! 0 - v ! 1)])
             \<lparr>bn = [1, 1], an = [1, -1], bnStartIndex = 0, backward = False,
               inFrequencyDomain = False, padType = NONE\<rparr> 2 = Inr F
          \<and> length F = 2 \<and> F ! 0 = 1 \<and> F ! 1 = 0)"
proof -
  let ?f = "\<lparr>bn = [1, 1], an = [1, -1], bnStartIndex = 0, backward = False,
         inFrequencyDomain = False, padType = NONE\<rparr>"
  let ?fft = "\<lambda>v :: real list. [complex_of_real (v ! 0 + v ! 1), complex_of_real (v ! 0 - v ! 1)]"
  have h1: "paddedCoefficients ?f 2 = Inr ([1, -1], [1, 1])"
    by (simp add: paddedCoefficients_def vectorSlice_def copyVector_def usub_def)
  have h2: "length (?fft [1, -1]) \<le> length (?fft [1, 1])" by simp
  from frequencyResponse_bins[of ?f 2 "[1, -1]" "[1, 1]" ?fft, OF h1 h2]
  obtain F where F: "frequencyResponse_arma ?fft ?f 2 = Inr F" "length F = 2"
     "\<forall>k<length F. (cmod (?fft [1, -1] ! k) = 0 \<longrightarrow> F ! k = 1)
               \<and> (cmod (?fft [1, -1] ! k) \<noteq> 0 \<longrightarrow> F ! k = ?fft [1, 1] ! k / ?fft [1, -1] ! k)"
    by auto
  from F(2,3) have "F ! 0 = 1" by auto
  moreover from F(2,3) have "F ! 1 = 0" by auto
  ultimately show ?thesis using h1 F(1,2) by simp
qed

text \<open>
  C9, evaluated where it fails. The identity coefficients \<open>bn = [1]\<close>, \<open>an = [1]\<close>
  with \<open>backward\<close> at length 1 pass the check of the length, and the first round of
  the reflection loop accesses index 1 of vectors of one element.
\<close>

theorem reflection_index_outside:
  "\<not> (length (bn \<lparr>bn = [1], an = [1], bnStartIndex = 0, backward = True,
                   inFrequencyDomain = False, padType = NONE\<rparr>) > 1
       \<or> length (an \<lparr>bn = [1], an = [1], bnStartIndex = 0, backward = True,
                   inFrequencyDomain = False, padType = NONE\<rparr>) > 1)
   \<and> reflectStep 0 ([1], [1]) = Inl IndexOutOfRange
   \<and> paddedCoefficients \<lparr>bn = [1], an = [1], bnStartIndex = 0, backward = True,
         inFrequencyDomain = False, padType = NONE\<rparr> 1 = Inl IndexOutOfRange"
  by (simp add: paddedCoefficients_def vectorSlice_def copyVector_def usub_def
        reflectStep_def swapElements_def)

subsection \<open>The chain\<close>

text \<open>
  C6. For a length whose sum \<open>len + 2\<close> does not wrap around, and when every member of
  the chain returns a response of \<open>(len + 2) div 2\<close> bins, the chain returns a vector
  of \<open>(len + 2) div 2\<close> values, bin \<open>k\<close> of which is the product of the members'
  bins \<open>k\<close>; for the empty chain it is the all-ones vector.
\<close>

theorem chain_frequencyResponse:
  assumes "len + 2 < 2 ^ 64"
    and "\<forall>flt \<in> set filters. \<exists>H. flt len = Inr H \<and> length H = (len + 2) div 2"
  shows "\<exists>F. frequencyResponse_chain filters len = Inr F
           \<and> length F = (len + 2) div 2
           \<and> (\<forall>k < (len + 2) div 2.
                 F ! k = prod_list (map (\<lambda>flt. projr (flt len) ! k) filters))
           \<and> (filters = [] \<longrightarrow> F = replicate ((len + 2) div 2) 1)"
proof -
  from assms(1) have "(len + 2) mod 2 ^ 64 = len + 2" by simp
  then have "frequencyResponse_chain filters len
               = multiplyResponses filters len (replicate ((len + 2) div 2) 1)"
    by (simp only: frequencyResponse_chain_def)
  with multiplyResponses_from_ones[OF assms(2)] show ?thesis by simp
qed

theorem chain_frequencyResponse_witness:
  "(4::nat) + 2 < 2 ^ 64
   \<and> frequencyResponse_chain [\<lambda>n. Inr [2, 3, 4], \<lambda>n. Inr [\<i>, 1, 2]] 4 = Inr [2 * \<i>, 3, 8]"
proof -
  have b: "(4::nat) + 2 < 2 ^ 64" by simp
  have h: "\<forall>flt \<in> set [\<lambda>n. Inr [2, 3, 4], \<lambda>n. Inr [\<i>, 1, 2]].
       \<exists>H. flt (4::nat) = (Inr H :: error + complex list) \<and> length H = (4 + 2) div 2"
    by simp
  from chain_frequencyResponse[OF b h]
  obtain F where F: "frequencyResponse_chain [\<lambda>n. Inr [2, 3, 4], \<lambda>n. Inr [\<i>, 1, 2]] 4 = Inr F"
    "length F = 3" "F ! 0 = 2 * \<i>" "F ! 1 = 3" "F ! 2 = 8"
    by (auto simp: nth_Cons')
  have "F = [2 * \<i>, 3, 8]"
    using F(2-5) by (intro nth_equalityI) (auto simp: less_Suc_eq numeral_3_eq_3 numeral_2_eq_2)
  with F(1) b show ?thesis by simp
qed

end
